theory Spec2Isabelle
  imports
    Main
    "HOL-Library.Finite_Map"
    "HOL-Library.Char_ord"
    "HOL-Library.List_Lexorder"
    "HOL-Library.Sublist"
    "HOL-Library.Multiset"
begin

section \<open>Strings, maps and errors\<close>

text \<open>
  A Go \<^verbatim>\<open>string\<close> and a \<^verbatim>\<open>[]byte\<close> are both sequences of bytes: \<^typ>\<open>string\<close>
  (a \<^typ>\<open>char list\<close>, one \<^typ>\<open>char\<close> per byte).  The order on strings is the
  byte-wise lexicographic order, as Go's \<^verbatim>\<open><\<close> on strings and \<^verbatim>\<open>slices.Sort\<close>.
  A \<^verbatim>\<open>map[string]string\<close> is a finite map; the nil map and the empty map are both
  \<^term>\<open>fmempty\<close> (they behave alike under \<^verbatim>\<open>len\<close>, lookup and \<^verbatim>\<open>range\<close>); where the
  program tells them apart, in \<^verbatim>\<open>MarshalJSON\<close>, the event carries which of the two its
  map is.
\<close>

type_synonym headers = "(string, string) fmap"

text \<open>\<^verbatim>\<open>m[k]\<close>: the value stored under the key, the empty string when there is none.\<close>

definition hget :: "headers \<Rightarrow> string \<Rightarrow> string" where
  "hget m k = (case fmlookup m k of None \<Rightarrow> [] | Some v \<Rightarrow> v)"

text \<open>
  \<^verbatim>\<open>for k := range m\<close> yields every key once, in an order Go leaves unspecified:
  \<open>range_order m ks\<close> says that \<open>ks\<close> is one such order.
\<close>

definition range_order :: "headers \<Rightarrow> string list \<Rightarrow> bool" where
  "range_order m ks \<longleftrightarrow> distinct ks \<and> set ks = fset (fmdom m)"

text \<open>The errors of the package, of \<^verbatim>\<open>io\<close> and of \<^verbatim>\<open>strconv\<close>, as values.\<close>

datatype error =
    EOF
  | ErrUnexpectedEOF
  | ErrWriter
  | ErrorString string
  | Panic string
  | ErrMalformedHeaderLine string
  | ErrMalformedContentLength string
  | ErrFailedToReadBody error
  | ErrFailedToSendCommand error
  | ErrMissingAuthRequest
  | ErrAccessDenied
  | ErrInvalidPassword
  | ErrTimeout
  | ErrUnexpectedAuthRequestContentType string
  | ErrFailedToSendAuth error
  | ErrFailedToReadAuthResponse error
  | ErrUnexpectedAuthResponseContentType string
  | ErrUnsupportedEventContentType string
  | ErrJSON

text \<open>\<^verbatim>\<open>strings.HasPrefix(s, p)\<close> and \<^verbatim>\<open>bytes.HasPrefix(s, p)\<close>.\<close>

definition HasPrefix :: "string \<Rightarrow> string \<Rightarrow> bool" where
  "HasPrefix s p = prefix p s"

text \<open>\<^verbatim>\<open>strings.Join(elems, sep)\<close>.\<close>

fun Join :: "string list \<Rightarrow> string \<Rightarrow> string" where
  "Join [] sep = []"
| "Join [x] sep = x"
| "Join (x # y # ys) sep = x @ sep @ Join (y # ys) sep"

text \<open>\<^verbatim>\<open>tools.go\<close>, \<^verbatim>\<open>trimLeft\<close>: drops the leading spaces and tabs.\<close>

fun trimLeft :: "string \<Rightarrow> string" where
  "trimLeft [] = []"
| "trimLeft (b # bs) = (if b \<noteq> CHR '' '' \<and> b \<noteq> CHR 0x09 then b # bs else trimLeft bs)"

text \<open>\<^verbatim>\<open>strings.TrimPrefix(s, p)\<close>.\<close>

definition TrimPrefix :: "string \<Rightarrow> string \<Rightarrow> string" where
  "TrimPrefix s p = (if HasPrefix s p then drop (length p) s else s)"

text \<open>\<^verbatim>\<open>bytes.IndexByte(b, c)\<close>: the index of the first \<open>c\<close>, \<open>-1\<close> when there is none.\<close>

fun IndexByte :: "string \<Rightarrow> char \<Rightarrow> int" where
  "IndexByte [] c = - 1"
| "IndexByte (b # bs) c =
     (if b = c then 0 else (let i = IndexByte bs c in if i < 0 then - 1 else i + 1))"

text \<open>
  \<^verbatim>\<open>strings.EqualFold(s, t)\<close>, equality under Unicode simple case folding of UTF-8
  strings.  Two ASCII bytes are equal when they are the same or the upper and the lower
  case of one letter.  Beyond ASCII, the only runes that fold to an ASCII letter are
  U+017F (bytes C5 BF), which folds to \<^verbatim>\<open>s\<close>, and U+212A (bytes E2 84 AA), which
  folds to \<^verbatim>\<open>k\<close>; every other non-ASCII rune of \<open>s\<close>, and every invalid byte, equals
  no ASCII byte.  The model is exact when \<open>t\<close> is ASCII, which it is at every call of
  the package (\<^verbatim>\<open>"all"\<close>, \<^verbatim>\<open>"CUSTOM"\<close>, \<^verbatim>\<open>"Content-Length"\<close>).
\<close>

definition ascii_fold :: "char \<Rightarrow> char \<Rightarrow> bool" where
  "ascii_fold sr tr \<longleftrightarrow>
     tr = sr \<or>
     (let lo = min sr tr; hi = max sr tr
      in CHR ''A'' \<le> lo \<and> lo \<le> CHR ''Z'' \<and> (of_char hi :: nat) = of_char lo + 32)"

fun EqualFold :: "string \<Rightarrow> string \<Rightarrow> bool" where
  "EqualFold [] [] = True"
| "EqualFold [] (tr # t) = False"
| "EqualFold (sr # s) [] = False"
| "EqualFold (sr # s) (tr # t) =
     (if (of_char sr :: nat) < 0x80 then ascii_fold sr tr \<and> EqualFold s t
      else if sr = CHR 0xC5 \<and> take 1 s = [CHR 0xBF] \<and> (tr = CHR ''s'' \<or> tr = CHR ''S'')
        then EqualFold (drop 1 s) t
      else if sr = CHR 0xE2 \<and> take 2 s = [CHR 0x84, CHR 0xAA] \<and> (tr = CHR ''k'' \<or> tr = CHR ''K'')
        then EqualFold (drop 2 s) t
      else False)"

text \<open>
  \<^verbatim>\<open>strconv\<close>.  \<^verbatim>\<open>int\<close> is 64 bits wide.  \<^verbatim>\<open>Itoa\<close> writes the decimal digits, with a
  minus sign for a negative number.
\<close>

function utoa :: "int \<Rightarrow> string" where
  "utoa n = (if n < 10 then [char_of (48 + n)] else utoa (n div 10) @ [char_of (48 + n mod 10)])"
  by pat_completeness auto
termination
  by (relation "measure nat") auto

declare utoa.simps [simp del]

definition Itoa :: "int \<Rightarrow> string" where
  "Itoa i = (if i < 0 then CHR ''-'' # utoa (- i) else utoa i)"

datatype num_error = ErrSyntax | ErrRange

text \<open>
  \<^verbatim>\<open>strconv.ParseUint(s, 10, 64)\<close> after its check for the empty string: the loop over
  the bytes, which stops at the first byte that is no digit (value 0, syntax error) or
  at the first overflow (the largest value, range error), whichever comes first.  The
  \<^verbatim>\<open>uint64\<close> is an integer with the bound written out.
\<close>

definition maxUint64 :: int where
  "maxUint64 = 2 ^ 64 - 1"

fun ParseUint_loop :: "int \<Rightarrow> string \<Rightarrow> int \<times> num_error option" where
  "ParseUint_loop n [] = (n, None)"
| "ParseUint_loop n (c # cs) =
     (if \<not> (CHR ''0'' \<le> c \<and> c \<le> CHR ''9'') then (0, Some ErrSyntax)
      else if n \<ge> maxUint64 div 10 + 1 then (maxUint64, Some ErrRange)
      else let n1 = n * 10 + (of_char c - 48)
           in if n1 > maxUint64 then (maxUint64, Some ErrRange) else ParseUint_loop n1 cs)"

definition ParseUint :: "string \<Rightarrow> int \<times> num_error option" where
  "ParseUint s = (if s = [] then (0, Some ErrSyntax) else ParseUint_loop 0 s)"

text \<open>
  \<^verbatim>\<open>strconv.ParseInt(s, 10, 64)\<close>: the value and the error.  On a syntax error the
  value is 0; on a range error it is the nearest bound of \<^verbatim>\<open>int64\<close>.
\<close>

definition ParseInt :: "string \<Rightarrow> int \<times> num_error option" where
  "ParseInt s =
     (if s = [] then (0, Some ErrSyntax)
      else
        let neg = (hd s = CHR ''-'');
            s1 = (if hd s = CHR ''+'' \<or> hd s = CHR ''-'' then tl s else s);
            (un, err) = ParseUint s1
        in if err = Some ErrSyntax then (0, Some ErrSyntax)
           else if \<not> neg \<and> un \<ge> 2 ^ 63 then (2 ^ 63 - 1, Some ErrRange)
           else if neg \<and> un > 2 ^ 63 then (- (2 ^ 63), Some ErrRange)
           else (if neg then - un else un, None))"

text \<open>
  \<^verbatim>\<open>strconv.Atoi(s)\<close>: its fast path for short strings computes what
  \<^verbatim>\<open>ParseInt(s, 10, 0)\<close>, its slow path, computes.
\<close>

definition Atoi :: "string \<Rightarrow> int \<times> num_error option" where
  "Atoi s = ParseInt s"

text \<open>
  \<^verbatim>\<open>url.PathUnescape(s)\<close>: every \<^verbatim>\<open>%XX\<close> becomes the byte with that hexadecimal
  code; a \<^verbatim>\<open>%\<close> that two hexadecimal digits do not follow is an error (\<open>None\<close>).
\<close>

definition ishex :: "char \<Rightarrow> bool" where
  "ishex c \<longleftrightarrow> (CHR ''0'' \<le> c \<and> c \<le> CHR ''9'') \<or> (CHR ''a'' \<le> c \<and> c \<le> CHR ''f'')
     \<or> (CHR ''A'' \<le> c \<and> c \<le> CHR ''F'')"

definition unhex :: "char \<Rightarrow> nat" where
  "unhex c =
     (if CHR ''0'' \<le> c \<and> c \<le> CHR ''9'' then of_char c - 48
      else if CHR ''a'' \<le> c \<and> c \<le> CHR ''f'' then of_char c - 97 + 10
      else if CHR ''A'' \<le> c \<and> c \<le> CHR ''F'' then of_char c - 65 + 10
      else 0)"

fun PathUnescape :: "string \<Rightarrow> string option" where
  "PathUnescape [] = Some []"
| "PathUnescape (c # s) =
     (if c = CHR ''%'' then
        (case s of
           h1 # h2 # rest \<Rightarrow>
             (if ishex h1 \<and> ishex h2
              then map_option ((#) (char_of (unhex h1 * 16 + unhex h2))) (PathUnescape rest)
              else None)
         | _ \<Rightarrow> None)
      else map_option ((#) c) (PathUnescape s))"

section \<open>Responses\<close>

text \<open>
  The content types \<^verbatim>\<open>disconnectNotice\<close>, \<^verbatim>\<open>commandReply\<close> and \<^verbatim>\<open>eventPlain\<close> are
  constants the sources use without their declaration.
\<close>

text \<open>Modelled from the spec: the constant \<^verbatim>\<open>disconnectNotice\<close>, whose declaration is
  missing; the read loop of \<^verbatim>\<open>client.go\<close> matches the same literal.\<close>

definition disconnectNotice :: string where
  "disconnectNotice = ''text/disconnect-notice''"

text \<open>Modelled from the spec: the constant \<^verbatim>\<open>commandReply\<close>, whose declaration is
  missing; the read loop of \<^verbatim>\<open>client.go\<close> matches the same literal.\<close>

definition commandReply :: string where
  "commandReply = ''command/reply''"

text \<open>Modelled from the spec: the constant \<^verbatim>\<open>eventPlain\<close>, whose declaration is
  missing; the read loop of \<^verbatim>\<open>client.go\<close> matches the same literal.\<close>

definition eventPlain :: string where
  "eventPlain = ''text/event-plain''"

text \<open>The field \<^verbatim>\<open>text\<close> (the \<^verbatim>\<open>Reply-Text\<close> header) is \<open>replyText\<close> here.\<close>

record response =
  contentType :: string
  replyText :: string
  jobUUID :: string
  body :: string

definition zero_response :: response where
  "zero_response = \<lparr>contentType = [], replyText = [], jobUUID = [], body = []\<rparr>"

definition isZero :: "response \<Rightarrow> bool" where
  "isZero r \<longleftrightarrow> contentType r = []"

text \<open>\<^verbatim>\<open>response.AsErr\<close>: \<open>None\<close> is the nil error.  The \<^verbatim>\<open>switch\<close> takes the first
  case whose constant equals the content type.\<close>

definition AsErr :: "response \<Rightarrow> error option" where
  "AsErr r =
     (if contentType r = disconnectNotice then Some EOF
      else if contentType r = commandReply then
        (if HasPrefix (replyText r) ''-ERR'' then Some (ErrorString (replyText r)) else None)
      else if contentType r = ''api/response'' then
        (if HasPrefix (body r) ''-ERR'' then Some (ErrorString (body r)) else None)
      else None)"

section \<open>Event names\<close>

text \<open>The table \<^verbatim>\<open>eventNames\<close>, a \<^verbatim>\<open>map[string]struct{}\<close> used as a set: its keys.\<close>

definition eventNames :: "string set" where
  "eventNames = {
    ''CUSTOM'', ''CLONE'', ''CHANNEL_CREATE'', ''CHANNEL_DESTROY'', ''CHANNEL_STATE'',
    ''CHANNEL_CALLSTATE'', ''CHANNEL_ANSWER'', ''CHANNEL_HANGUP'',
    ''CHANNEL_HANGUP_COMPLETE'', ''CHANNEL_EXECUTE'', ''CHANNEL_EXECUTE_COMPLETE'',
    ''CHANNEL_HOLD'', ''CHANNEL_UNHOLD'', ''CHANNEL_BRIDGE'', ''CHANNEL_UNBRIDGE'',
    ''CHANNEL_PROGRESS'', ''CHANNEL_PROGRESS_MEDIA'', ''CHANNEL_OUTGOING'',
    ''CHANNEL_PARK'', ''CHANNEL_UNPARK'', ''CHANNEL_APPLICATION'', ''CHANNEL_ORIGINATE'',
    ''CHANNEL_UUID'', ''API'', ''LOG'', ''INBOUND_CHAN'', ''OUTBOUND_CHAN'', ''STARTUP'',
    ''SHUTDOWN'', ''PUBLISH'', ''UNPUBLISH'', ''TALK'', ''NOTALK'', ''SESSION_CRASH'',
    ''MODULE_LOAD'', ''MODULE_UNLOAD'', ''DTMF'', ''MESSAGE'', ''PRESENCE_IN'',
    ''NOTIFY_IN'', ''PRESENCE_OUT'', ''PRESENCE_PROBE'', ''MESSAGE_WAITING'',
    ''MESSAGE_QUERY'', ''ROSTER'', ''CODEC'', ''BACKGROUND_JOB'', ''DETECTED_SPEECH'',
    ''DETECTED_TONE'', ''PRIVATE_COMMAND'', ''HEARTBEAT'', ''TRAP'', ''ADD_SCHEDULE'',
    ''DEL_SCHEDULE'', ''EXE_SCHEDULE'', ''RE_SCHEDULE'', ''RELOADXML'', ''NOTIFY'',
    ''PHONE_FEATURE'', ''PHONE_FEATURE_SUBSCRIBE'', ''SEND_MESSAGE'', ''RECV_MESSAGE'',
    ''REQUEST_PARAMS'', ''CHANNEL_DATA'', ''GENERAL'', ''COMMAND'', ''SESSION_HEARTBEAT'',
    ''CLIENT_DISCONNECTED'', ''SERVER_DISCONNECTED'', ''SEND_INFO'', ''RECV_INFO'',
    ''RECV_RTCP_MESSAGE'', ''SEND_RTCP_MESSAGE'', ''CALL_SECURE'', ''NAT'',
    ''RECORD_START'', ''RECORD_STOP'', ''PLAYBACK_START'', ''PLAYBACK_STOP'',
    ''CALL_UPDATE'', ''FAILURE'', ''SOCKET_DATA'', ''MEDIA_BUG_START'', ''MEDIA_BUG_STOP'',
    ''CONFERENCE_DATA_QUERY'', ''CONFERENCE_DATA'', ''CALL_SETUP_REQ'',
    ''CALL_SETUP_RESULT'', ''CALL_DETAIL'', ''DEVICE_STATE'', ''TEXT'',
    ''SHUTDOWN_REQUESTED''}"

definition eventAll :: string where
  "eventAll = ''all''"

text \<open>
  The loop of \<^verbatim>\<open>buildEventNamesCmd\<close> over the names, on the state
  \<open>(native, custom, isCustom)\<close>.  \<open>None\<close> is the \<^verbatim>\<open>return eventAll\<close> inside the loop.
\<close>

fun names_loop :: "string list \<Rightarrow> string \<times> string \<times> bool \<Rightarrow> (string \<times> string \<times> bool) option" where
  "names_loop [] st = Some st"
| "names_loop (name # names) (native, custom, isCustom) =
     (if name = [] then names_loop names (native, custom, isCustom)
      else if EqualFold name eventAll then None
      else if EqualFold name ''CUSTOM'' then names_loop names (native, custom, True)
      else if name \<in> eventNames then
        names_loop names ((if native \<noteq> [] then native @ '' '' else native) @ name, custom, isCustom)
      else
        names_loop names
          (native, (if custom \<noteq> [] then custom @ '' '' else custom) @ TrimPrefix name ''CUSTOM '',
           isCustom))"

definition buildEventNamesCmd :: "string list \<Rightarrow> string" where
  "buildEventNamesCmd names =
     (if names = [] \<or> hd names = [] \<or> EqualFold (hd names) eventAll then eventAll
      else
        (case names_loop names ([], [], False) of
           None \<Rightarrow> eventAll
         | Some (native, custom, isCustom) \<Rightarrow>
             let native =
               (if isCustom \<or> custom \<noteq> [] then
                  (if native \<noteq> [] then native @ '' '' else native) @ ''CUSTOM'' @
                  (if custom \<noteq> [] then '' '' @ custom else [])
                else native)
             in if native = [] then eventAll else native))"

section \<open>Commands\<close>

record command =
  name :: string
  params :: string
  c_jobUUID :: string
  c_headers :: headers
  c_body :: string

text \<open>\<^verbatim>\<open>cmd\<close> panics on the empty name.\<close>

definition cmd :: "string \<Rightarrow> string list \<Rightarrow> error + command" where
  "cmd nm ps =
     (if nm = [] then Inl (Panic ''command name cannot be empty'')
      else Inr \<lparr>name = nm, params = Join ps '' '', c_jobUUID = [], c_headers = fmempty, c_body = []\<rparr>)"

definition WithMessage :: "command \<Rightarrow> headers \<Rightarrow> string \<Rightarrow> command" where
  "WithMessage c h b = c\<lparr>c_headers := h, c_body := b\<rparr>"

text \<open>
  \<^verbatim>\<open>command.WriteTo\<close>, the bytes it writes.  \<open>ks\<close> is the order in which
  \<^verbatim>\<open>for k := range c.headers\<close> yields the keys; \<^verbatim>\<open>slices.Sort\<close> sorts them.
\<close>

definition command_header_line :: "command \<Rightarrow> string \<Rightarrow> string" where
  "command_header_line c k = [CHR 0x0A] @ k @ '': '' @ hget (c_headers c) k"

definition command_WriteTo_range :: "string list \<Rightarrow> command \<Rightarrow> string" where
  "command_WriteTo_range ks c =
     name c @
     (if params c \<noteq> [] then '' '' @ params c else []) @
     (if c_jobUUID c \<noteq> [] then [CHR 0x0A] @ ''Job-UUID: '' @ c_jobUUID c else []) @
     (if fmdom (c_headers c) \<noteq> {||} then concat (map (command_header_line c) (sort ks)) else []) @
     (if c_body c \<noteq> [] then
        [CHR 0x0A] @ ''content-length: '' @ Itoa (int (length (c_body c))) @ [CHR 0x0A, CHR 0x0A] @
        c_body c
      else [])"

text \<open>The same with the keys yielded in one fixed order; the order has no influence on the
  bytes, since the keys are sorted before they are written.\<close>

definition command_WriteTo :: "command \<Rightarrow> string" where
  "command_WriteTo c = command_WriteTo_range (sorted_list_of_fset (fmdom (c_headers c))) c"

definition IsZero :: "command \<Rightarrow> bool" where
  "IsZero c \<longleftrightarrow> name c = []"

section \<open>Connections\<close>

text \<open>
  A connection owns a byte stream.  \<open>rd\<close> holds the bytes the peer has sent and the
  connection has not read yet, after which the stream is at its end; \<open>wr\<close> holds the
  bytes flushed to the stream; \<open>wfail\<close> is the error with which the stream refuses a
  write, \<open>None\<close> when it accepts every write.  The buffers of \<^verbatim>\<open>bufio\<close>, the lock and
  the logger do not change what is read and written and are left out.
\<close>

record conn =
  rd :: string
  wr :: string
  wfail :: "error option"

text \<open>\<^verbatim>\<open>conn.Write\<close>: the new connection and the error.\<close>

definition conn_Write :: "conn \<Rightarrow> command \<Rightarrow> conn \<times> error option" where
  "conn_Write c cm =
     (if IsZero cm then (c, None)
      else
        (case wfail c of
           Some err \<Rightarrow> (c, Some (ErrFailedToSendCommand err))
         | None \<Rightarrow> (c\<lparr>wr := wr c @ command_WriteTo cm @ [CHR 0x0A, CHR 0x0A]\<rparr>, None)))"

text \<open>
  \<^verbatim>\<open>conn.readLine\<close>, that is \<^verbatim>\<open>bufio.Reader.ReadLine\<close> with the pieces of a long line put
  together: the bytes up to the next line feed, without the line feed and without a
  carriage return before it; the rest of the stream when no line feed is left; the error
  \<^verbatim>\<open>io.EOF\<close> at the end of the stream.  The result is the line and the unread bytes.
  (The source loses a last line without line feed that fills the buffer of \<^verbatim>\<open>bufio\<close>
  exactly, 4096 bytes or a multiple, to the error \<^verbatim>\<open>io.EOF\<close>; here it is returned.)
\<close>

definition readLine :: "string \<Rightarrow> error + string \<times> string" where
  "readLine r =
     (if r = [] then Inl EOF
      else
        let i = IndexByte r (CHR 0x0A) in
        if i < 0 then Inr (r, [])
        else
          let line = take (nat i) r
          in Inr (if line \<noteq> [] \<and> last line = CHR 0x0D then butlast line else line,
                  drop (nat i + 1) r))"

lemma IndexByte_less: "IndexByte s c < int (length s)"
  by (induction s) (auto simp: Let_def)

lemma readLine_shorter: "readLine r = Inr (line, r') \<Longrightarrow> length r' < length r"
  using IndexByte_less [of r "CHR 0x0A"]
  by (auto simp: readLine_def Let_def split: if_splits)

text \<open>
  The loop of \<^verbatim>\<open>conn.Read\<close> over the header lines, on the unread bytes, \<open>contentLength\<close>
  and \<open>resp\<close>.
\<close>

function Read_loop :: "string \<Rightarrow> int \<Rightarrow> response \<Rightarrow> string \<times> int \<times> response \<times> error option" where
  "Read_loop r contentLength resp =
     (case readLine r of
        Inl err \<Rightarrow> (r, contentLength, resp, Some err)
      | Inr (line, r') \<Rightarrow>
          if line = [] then
            (if isZero resp then Read_loop r' contentLength resp
             else (r', contentLength, resp, None))
          else
            let idx = IndexByte line (CHR '':'') in
            if idx \<le> 0 then (r', contentLength, resp, Some (ErrMalformedHeaderLine line))
            else
              let key = take (nat idx) line;
                  val = trimLeft (drop (nat idx + 1) line)
              in
                if key = ''Content-Type'' then Read_loop r' contentLength (resp\<lparr>contentType := val\<rparr>)
                else if key = ''Reply-Text'' then Read_loop r' contentLength (resp\<lparr>replyText := val\<rparr>)
                else if key = ''Job-UUID'' then Read_loop r' contentLength (resp\<lparr>jobUUID := val\<rparr>)
                else if key = ''Content-Length'' then
                  (case Atoi val of
                     (n, Some err) \<Rightarrow> (r', n, resp, Some (ErrMalformedContentLength val))
                   | (n, None) \<Rightarrow> Read_loop r' n resp)
                else Read_loop r' contentLength resp)"
  by pat_completeness auto
termination
  by (relation "measure (\<lambda>(r, contentLength, resp). length r)") (auto dest: readLine_shorter)

declare Read_loop.simps [simp del]

text \<open>
  \<^verbatim>\<open>io.ReadFull(c.r, buf)\<close> on a buffer of \<open>n\<close> zero bytes: the buffer, the unread bytes and
  the error, which is \<^verbatim>\<open>io.EOF\<close> when the stream ends before any byte was read and
  \<^verbatim>\<open>io.ErrUnexpectedEOF\<close> when it ends after some but not all of them.
\<close>

definition ReadFull :: "string \<Rightarrow> nat \<Rightarrow> string \<times> string \<times> error option" where
  "ReadFull r n =
     (if n \<le> length r then (take n r, drop n r, None)
      else if r = [] then (replicate n (CHR 0x00), [], Some EOF)
      else (r @ replicate (n - length r) (CHR 0x00), [], Some ErrUnexpectedEOF))"

definition conn_Read :: "conn \<Rightarrow> conn \<times> response \<times> error option" where
  "conn_Read c =
     (case Read_loop (rd c) 0 zero_response of
        (r, contentLength, resp, Some err) \<Rightarrow> (c\<lparr>rd := r\<rparr>, resp, Some err)
      | (r, contentLength, resp, None) \<Rightarrow>
          if contentLength > 0 then
            (case ReadFull r (nat contentLength) of
               (buf, r', Some err) \<Rightarrow> (c\<lparr>rd := r'\<rparr>, resp\<lparr>body := buf\<rparr>, Some (ErrFailedToReadBody err))
             | (buf, r', None) \<Rightarrow> (c\<lparr>rd := r'\<rparr>, resp\<lparr>body := buf\<rparr>, None))
          else (c\<lparr>rd := r\<rparr>, resp, None))"

text \<open>\<^verbatim>\<open>conn.Auth\<close>.\<close>

definition Auth :: "conn \<Rightarrow> string \<Rightarrow> conn \<times> error option" where
  "Auth c password =
     (case conn_Read c of
        (c1, resp, Some err) \<Rightarrow> (c1, Some ErrMissingAuthRequest)
      | (c1, resp, None) \<Rightarrow>
          if contentType resp = ''auth/request'' then
            (case cmd ''auth'' [password] of
               Inl p \<Rightarrow> (c1, Some p)
             | Inr a \<Rightarrow>
                 (case conn_Write c1 a of
                    (c2, Some err) \<Rightarrow> (c2, Some (ErrFailedToSendAuth err))
                  | (c2, None) \<Rightarrow>
                      (case conn_Read c2 of
                         (c3, resp2, Some err) \<Rightarrow> (c3, Some (ErrFailedToReadAuthResponse err))
                       | (c3, resp2, None) \<Rightarrow>
                           if contentType resp2 \<noteq> commandReply then
                             (c3, Some (ErrUnexpectedAuthResponseContentType (contentType resp2)))
                           else if replyText resp2 \<noteq> ''+OK accepted'' then (c3, Some ErrInvalidPassword)
                           else (c3, None))))
          else if contentType resp = ''text/rude-rejection'' then (c1, Some ErrAccessDenied)
          else if contentType resp = disconnectNotice then (c1, Some EOF)
          else (c1, Some (ErrUnexpectedAuthRequestContentType (contentType resp))))"

section \<open>Events\<close>

record Event =
  e_headers :: headers
  e_body :: string

definition zero_Event :: Event where
  "zero_Event = \<lparr>e_headers = fmempty, e_body = []\<rparr>"

definition Get :: "Event \<Rightarrow> string \<Rightarrow> string" where
  "Get e key = hget (e_headers e) key"

text \<open>\<^verbatim>\<open>Event.Sequence\<close>: the value \<^verbatim>\<open>strconv.ParseInt\<close> returns, its error dropped.\<close>

definition Sequence :: "Event \<Rightarrow> int" where
  "Sequence e = fst (ParseInt (Get e ''Event-Sequence''))"






text \<open>
  \<^verbatim>\<open>skipNewLines\<close>, the \<^verbatim>\<open>strings.Replacer\<close> that turns every \<^verbatim>\<open>\r\n\<close> and every other
  \<^verbatim>\<open>\n\<close> into a space.
\<close>

fun skipNewLines :: "string \<Rightarrow> string" where
  "skipNewLines [] = []"
| "skipNewLines [a] = (if a = CHR 0x0A then '' '' else [a])"
| "skipNewLines (a # b # s) =
     (if a = CHR 0x0D \<and> b = CHR 0x0A then CHR '' '' # skipNewLines s
      else if a = CHR 0x0A then CHR '' '' # skipNewLines (b # s)
      else a # skipNewLines (b # s))"

text \<open>
  \<^verbatim>\<open>Event.WriteTo\<close>, the bytes it writes.  \<open>ks\<close> is the order in which
  \<^verbatim>\<open>for k := range e.headers\<close> yields the keys.
\<close>

definition event_header_line :: "Event \<Rightarrow> string \<Rightarrow> string" where
  "event_header_line e k = k @ '': '' @ skipNewLines (hget (e_headers e) k) @ [CHR 0x0A]"

definition Event_WriteTo_range :: "string list \<Rightarrow> Event \<Rightarrow> string" where
  "Event_WriteTo_range ks e =
     concat (map (event_header_line e) (sort (filter (\<lambda>k. \<not> EqualFold k ''Content-Length'') ks))) @
     (if e_body e \<noteq> [] then
        ''Content-Length: '' @ Itoa (int (length (e_body e))) @ [CHR 0x0A, CHR 0x0A] @ e_body e
      else [])"

definition Event_WriteTo :: "Event \<Rightarrow> string" where
  "Event_WriteTo e = Event_WriteTo_range (sorted_list_of_fset (fmdom (e_headers e))) e"

text \<open>
  The loop of \<^verbatim>\<open>parseEvent\<close> over the header lines: the headers read, the bytes left and
  the error.  (\<^verbatim>\<open>upcomingHeaderKeys\<close> only sizes the map.)
\<close>

function parseEvent_loop :: "string \<Rightarrow> headers \<Rightarrow> headers \<times> string \<times> error option" where
  "parseEvent_loop b h =
     (if b = [] then (h, b, None)
      else
        let i = IndexByte b (CHR 0x0A) in
        if i < 0 then (h, b, None)
        else
          let line = take (nat i) b; b' = drop (nat i + 1) b in
          if line = [] \<or> line = [CHR 0x0D] then (h, b', None)
          else
            let idx = IndexByte line (CHR '':'') in
            if idx \<le> 0 then (h, b', Some (ErrMalformedHeaderLine line))
            else
              let key = take (nat idx) line;
                  val = trimLeft (drop (nat idx + 1) line);
                  val = (case PathUnescape val of Some v \<Rightarrow> v | None \<Rightarrow> val)
              in parseEvent_loop b' (fmupd key val h))"
  by pat_completeness auto
termination
  by (relation "measure (\<lambda>(b, h). length b)") auto

declare parseEvent_loop.simps [simp del]

text \<open>
  \<^verbatim>\<open>parseEvent\<close>: the event and the error.  \<^verbatim>\<open>copy\<close> fills the new body of \<open>length\<close> zero
  bytes with as many of the bytes left as fit and returns their number.  The error of
  \<^verbatim>\<open>strconv.Atoi\<close> is dropped and its value used.  Memory is not bounded: \<^verbatim>\<open>make\<close>
  gives a body of any length.
\<close>

definition parseEvent :: "string \<Rightarrow> Event \<times> error option" where
  "parseEvent b0 =
     (case parseEvent_loop b0 fmempty of
        (h, b, Some err) \<Rightarrow> (\<lparr>e_headers = h, e_body = []\<rparr>, Some err)
      | (h, b, None) \<Rightarrow>
          let len = fst (Atoi (hget h ''Content-Length'')) in
          if len > 0 then
            let n = min (nat len) (length b);
                buf = take n b @ replicate (nat len - n) (CHR 0x00)
            in if int n \<noteq> len
               then (\<lparr>e_headers = h, e_body = buf\<rparr>, Some (ErrFailedToReadBody ErrUnexpectedEOF))
               else (\<lparr>e_headers = h, e_body = buf\<rparr>, None)
          else (\<lparr>e_headers = h, e_body = []\<rparr>, None))"

text \<open>\<^verbatim>\<open>response.toEvent\<close>.\<close>

definition toEvent :: "response \<Rightarrow> Event \<times> error option" where
  "toEvent r =
     (if contentType r \<noteq> eventPlain
      then (zero_Event, Some (ErrUnsupportedEventContentType (contentType r)))
      else parseEvent (body r))"

section \<open>Events as JSON\<close>

text \<open>
  \<^verbatim>\<open>encoding/json\<close>.  A JSON document is modelled by what it denotes, not by its bytes:
  an object whose members are strings is the list of its members in the order of the
  document, \<^verbatim>\<open>null\<close> is \<open>JNull\<close>, and \<open>JInvalid\<close> stands for a document that
  \<^verbatim>\<open>json.Unmarshal\<close> rejects for a \<^verbatim>\<open>map[string]string\<close> (text that is no JSON, or a value
  that is no object), leaving the map as it was.
\<close>

datatype json = JObject "(string \<times> string) list" | JNull | JInvalid

text \<open>
  \<open>rune_width s\<close> is the number of bytes of the UTF-8 encoding at the head of \<open>s\<close>, as
  \<^verbatim>\<open>utf8.DecodeRuneInString\<close> accepts it, and 0 when the head is no valid encoding.
\<close>

definition in_range :: "nat \<Rightarrow> nat \<Rightarrow> char \<Rightarrow> bool" where
  "in_range lo hi c \<longleftrightarrow> lo \<le> of_char c \<and> of_char c \<le> hi"

fun rune_width :: "string \<Rightarrow> nat" where
  "rune_width [] = 0"
| "rune_width (b0 # s) =
     (let x = (of_char b0 :: nat) in
      if x < 0x80 then 1
      else if x < 0xC2 then 0
      else if x < 0xE0 then
        (case s of b1 # _ \<Rightarrow> if in_range 0x80 0xBF b1 then 2 else 0 | _ \<Rightarrow> 0)
      else if x < 0xF0 then
        (case s of
           b1 # b2 # _ \<Rightarrow>
             if in_range (if x = 0xE0 then 0xA0 else 0x80) (if x = 0xED then 0x9F else 0xBF) b1 \<and>
                in_range 0x80 0xBF b2
             then 3 else 0
         | _ \<Rightarrow> 0)
      else if x < 0xF5 then
        (case s of
           b1 # b2 # b3 # _ \<Rightarrow>
             if in_range (if x = 0xF0 then 0x90 else 0x80) (if x = 0xF4 then 0x8F else 0xBF) b1 \<and>
                in_range 0x80 0xBF b2 \<and> in_range 0x80 0xBF b3
             then 4 else 0
         | _ \<Rightarrow> 0)
      else 0)"

declare rune_width.simps [simp del]

text \<open>\<^verbatim>\<open>utf8.ValidString\<close>.\<close>

function ValidString :: "string \<Rightarrow> bool" where
  "ValidString s =
     (if s = [] then True
      else let w = rune_width s in if w = 0 then False else ValidString (drop w s))"
  by pat_completeness auto
termination
  by (relation "measure length") auto

declare ValidString.simps [simp del]

text \<open>
  The string that the JSON text written by \<^verbatim>\<open>json.Marshal\<close> for the string \<open>s\<close> denotes:
  \<open>s\<close> with every byte that belongs to no valid UTF-8 encoding replaced by U+FFFD (the
  bytes EF BF BD).
\<close>

function json_string :: "string \<Rightarrow> string" where
  "json_string s =
     (if s = [] then []
      else
        let w = rune_width s in
        if w = 0 then [CHR 0xEF, CHR 0xBF, CHR 0xBD] @ json_string (drop 1 s)
        else take w s @ json_string (drop w s))"
  by pat_completeness auto
termination
  by (relation "measure length") auto

declare json_string.simps [simp del]

text \<open>
  Go tells the nil map from an empty map that was made.  The parts above use a header map
  only through \<^verbatim>\<open>len\<close>, lookup and \<^verbatim>\<open>range\<close>, under which the two behave alike, and take
  both for \<^term>\<open>fmempty\<close>.  \<^verbatim>\<open>MarshalJSON\<close> and \<^verbatim>\<open>encoding/json\<close> tell them apart: an
  assignment into the nil map panics, and the nil map is written as \<^verbatim>\<open>null\<close>.  Here an
  event carries, besides its two fields, whether its header map is the nil map (it is
  then \<^term>\<open>fmempty\<close>).
\<close>

record JEvent = Event +
  nil_headers :: bool

text \<open>The zero \<^verbatim>\<open>Event{}\<close>: its header map is the nil map.\<close>

definition zero_JEvent :: JEvent where
  "zero_JEvent = \<lparr>e_headers = fmempty, e_body = [], nil_headers = True\<rparr>"

text \<open>
  \<^verbatim>\<open>json.Marshal\<close> of a \<^verbatim>\<open>map[string]string\<close>: \<^verbatim>\<open>null\<close> for the nil map, else an object
  with one member for each key, in the sorted order of the keys.
\<close>

definition json_Marshal :: "bool \<Rightarrow> headers \<Rightarrow> json" where
  "json_Marshal is_nil m =
     (if is_nil then JNull
      else JObject (map (\<lambda>k. (json_string k, json_string (hget m k)))
             (sorted_list_of_fset (fmdom m))))"

text \<open>
  \<^verbatim>\<open>json.Unmarshal\<close> into a map that is not nil: whether the map is nil afterwards, and
  the map.  The members of an object are stored from first to last; \<^verbatim>\<open>null\<close> sets the
  map to nil.
\<close>

fun json_Unmarshal :: "json \<Rightarrow> headers \<Rightarrow> error + bool \<times> headers" where
  "json_Unmarshal (JObject ms) m = Inr (False, fold (\<lambda>(k, v) m. fmupd k v m) ms m)"
| "json_Unmarshal JNull m = Inr (True, fmempty)"
| "json_Unmarshal JInvalid m = Inl ErrJSON"

text \<open>
  \<^verbatim>\<open>Event.MarshalJSON\<close>.  \<^verbatim>\<open>maps.Clone\<close> of the nil map is the nil map, and the assignment
  of \<^verbatim>\<open>_body\<close> into it panics.  The error of \<^verbatim>\<open>json.Marshal\<close> is always nil for such a
  map.
\<close>

definition MarshalJSON :: "JEvent \<Rightarrow> error + json" where
  "MarshalJSON e =
     (if e_body e \<noteq> [] then
        (if nil_headers e then Inl (Panic ''assignment to entry in nil map'')
         else Inr (json_Marshal False (fmupd ''_body'' (e_body e) (e_headers e))))
      else Inr (json_Marshal (nil_headers e) (e_headers e)))"

text \<open>
  \<^verbatim>\<open>Event.UnmarshalJSON\<close> on the receiver \<open>e\<close>: the event and the error.  The header map
  is made anew before \<^verbatim>\<open>json.Unmarshal\<close> fills it.
\<close>

definition UnmarshalJSON :: "JEvent \<Rightarrow> json \<Rightarrow> JEvent \<times> error option" where
  "UnmarshalJSON e data =
     (case json_Unmarshal data fmempty of
        Inl err \<Rightarrow> (e\<lparr>e_headers := fmempty, nil_headers := False\<rparr>, Some err)
      | Inr (is_nil, h) \<Rightarrow>
          if hget h ''_body'' \<noteq> [] then
            (e\<lparr>e_headers := fmdrop ''_body'' h, e_body := hget h ''_body'', nil_headers := is_nil\<rparr>,
             None)
          else (e\<lparr>e_headers := h, nil_headers := is_nil\<rparr>, None))"

section \<open>Notions used in the statements\<close>

text \<open>
  The header keys and values that \<^verbatim>\<open>parseEvent\<close> reads back as they were written: a key is
  not empty and holds neither a colon nor a line feed; a value holds no line feed, does
  not begin with a space or a tab, and is not changed by \<^verbatim>\<open>url.PathUnescape\<close> (it holds
  no well-formed escape \<^verbatim>\<open>%XX\<close>, or an ill-formed one).
\<close>

definition wire_key :: "string \<Rightarrow> bool" where
  "wire_key k \<longleftrightarrow> k \<noteq> [] \<and> CHR '':'' \<notin> set k \<and> CHR 0x0A \<notin> set k"

definition wire_value :: "string \<Rightarrow> bool" where
  "wire_value v \<longleftrightarrow>
     CHR 0x0A \<notin> set v \<and> trimLeft v = v \<and>
     (case PathUnescape v of None \<Rightarrow> True | Some v' \<Rightarrow> v' = v)"

text \<open>
  A map built by the assignments \<^verbatim>\<open>m[k] = v\<close>, one for each pair of the list in its
  order (a map literal, or a loop of insertions).
\<close>

definition insert_all :: "(string \<times> string) list \<Rightarrow> headers" where
  "insert_all kvs = fold (\<lambda>(k, v) m. fmupd k v m) kvs fmempty"

text \<open>The bytes of the names of the table: the upper-case letters and the underscore.\<close>

definition plain :: "char set" where
  "plain = {c. (CHR ''A'' \<le> c \<and> c \<le> CHR ''Z'') \<or> c = CHR ''_''}"

section \<open>Response error classification\<close>

text \<open>
  Claim C5.  A response whose content type is the disconnect notice is the end-of-stream
  error; a command reply whose text begins with \<^verbatim>\<open>-ERR\<close> is an error carrying that text;
  an API response whose body begins with \<^verbatim>\<open>-ERR\<close> is an error carrying that body; every
  other response is no error.
\<close>

theorem AsErr_classification:
  "(contentType r = ''text/disconnect-notice'' \<longrightarrow> AsErr r = Some EOF) \<and>
   (contentType r = ''command/reply'' \<and> prefix ''-ERR'' (replyText r) \<longrightarrow>
      AsErr r = Some (ErrorString (replyText r))) \<and>
   (contentType r = ''api/response'' \<and> prefix ''-ERR'' (body r) \<longrightarrow>
      AsErr r = Some (ErrorString (body r))) \<and>
   (contentType r \<noteq> ''text/disconnect-notice'' \<and>
    \<not> (contentType r = ''command/reply'' \<and> prefix ''-ERR'' (replyText r)) \<and>
    \<not> (contentType r = ''api/response'' \<and> prefix ''-ERR'' (body r)) \<longrightarrow>
      AsErr r = None)"
  by (simp add: AsErr_def disconnectNotice_def commandReply_def HasPrefix_def)

theorem AsErr_classification_witness:
  "AsErr \<lparr>contentType = ''text/disconnect-notice'', replyText = ''-ERR x'', jobUUID = [], body = []\<rparr>
     = Some EOF \<and>
   AsErr \<lparr>contentType = ''command/reply'', replyText = ''-ERR no'', jobUUID = [], body = []\<rparr>
     = Some (ErrorString ''-ERR no'') \<and>
   AsErr \<lparr>contentType = ''api/response'', replyText = [], jobUUID = [], body = ''-ERR bad''\<rparr>
     = Some (ErrorString ''-ERR bad'') \<and>
   AsErr \<lparr>contentType = ''command/reply'', replyText = ''+OK'', jobUUID = [], body = ''-ERR''\<rparr>
     = None"
  using
    AsErr_classification [of "\<lparr>contentType = ''text/disconnect-notice'', replyText = ''-ERR x'',
      jobUUID = [], body = []\<rparr>"]
    AsErr_classification [of "\<lparr>contentType = ''command/reply'', replyText = ''-ERR no'',
      jobUUID = [], body = []\<rparr>"]
    AsErr_classification [of "\<lparr>contentType = ''api/response'', replyText = [],
      jobUUID = [], body = ''-ERR bad''\<rparr>"]
    AsErr_classification [of "\<lparr>contentType = ''command/reply'', replyText = ''+OK'',
      jobUUID = [], body = ''-ERR''\<rparr>"]
  by simp


section \<open>Building the list of event names\<close>

lemma plain_nat: "c \<in> plain \<longleftrightarrow> (65 \<le> (of_char c :: nat) \<and> (of_char c :: nat) \<le> 90) \<or> (of_char c :: nat) = 95"
proof -
  have "c = CHR ''_'' \<longleftrightarrow> (of_char c :: nat) = of_char (CHR ''_'')"
    by (simp only: of_char_eq_iff)
  then show ?thesis by (simp add: plain_def less_eq_char_def)
qed

lemma plain_ascii: "c \<in> plain \<Longrightarrow> (of_char c :: nat) < 0x80"
  by (auto simp: plain_nat)

lemma ascii_fold_nat:
  "ascii_fold sr tr \<longleftrightarrow>
     (of_char tr :: nat) = of_char sr \<or>
     (65 \<le> min (of_char sr :: nat) (of_char tr) \<and> min (of_char sr :: nat) (of_char tr) \<le> 90 \<and>
      max (of_char sr :: nat) (of_char tr) = min (of_char sr) (of_char tr) + 32)"
proof -
  have m: "(of_char (min sr tr) :: nat) = min (of_char sr) (of_char tr)"
    "(of_char (max sr tr) :: nat) = max (of_char sr) (of_char tr)"
    by (simp_all add: min_def max_def less_eq_char_def)
  have e: "tr = sr \<longleftrightarrow> (of_char tr :: nat) = of_char sr"
    by (simp only: of_char_eq_iff)
  show ?thesis
    unfolding ascii_fold_def Let_def e by (simp add: less_eq_char_def m)
qed

lemma ascii_fold_plain_unique:
  "ascii_fold sr a \<Longrightarrow> ascii_fold sr b \<Longrightarrow> a \<in> plain \<Longrightarrow> b \<in> plain \<Longrightarrow> a = b"
proof -
  assume "ascii_fold sr a" "ascii_fold sr b" "a \<in> plain" "b \<in> plain"
  then have "(of_char a :: nat) = of_char b"
    unfolding ascii_fold_nat plain_nat by (auto simp: min_def max_def split: if_splits)
  then show "a = b" by (simp only: of_char_eq_iff)
qed

lemma ascii_fold_refl: "ascii_fold a a"
  by (simp add: ascii_fold_def)

lemma EqualFold_refl: "set a \<subseteq> plain \<Longrightarrow> EqualFold a a"
  by (induction a) (auto simp: plain_ascii ascii_fold_refl)


lemma s_not_plain: "CHR ''s'' \<notin> plain" "CHR ''k'' \<notin> plain"
  by (simp_all add: plain_nat)

lemma EqualFold_unique:
  "EqualFold n a \<Longrightarrow> EqualFold n b \<Longrightarrow> set a \<subseteq> plain \<Longrightarrow> set b \<subseteq> plain \<Longrightarrow> a = b"
proof (induction n a arbitrary: b rule: EqualFold.induct)
  case 1
  then show ?case by (cases b) auto
next
  case (2 tr t)
  then show ?case by simp
next
  case (3 sr s)
  then show ?case by simp
next
  case (4 sr s tr t)
  from "4.prems"(2) obtain br bt where b: "b = br # bt" by (cases b) auto
  have pl: "tr \<in> plain" "br \<in> plain" "set t \<subseteq> plain" "set bt \<subseteq> plain"
    using "4.prems"(3,4) by (auto simp: b)
  consider (ascii) "(of_char sr :: nat) < 0x80"
    | (long_s) "\<not> (of_char sr :: nat) < 0x80" "sr = CHR 0xC5 \<and> take 1 s = [CHR 0xBF]"
    | (kelvin) "\<not> (of_char sr :: nat) < 0x80" "\<not> (sr = CHR 0xC5 \<and> take 1 s = [CHR 0xBF])"
        "sr = CHR 0xE2 \<and> take 2 s = [CHR 0x84, CHR 0xAA]"
    | (other) "\<not> (of_char sr :: nat) < 0x80" "\<not> (sr = CHR 0xC5 \<and> take 1 s = [CHR 0xBF])"
        "\<not> (sr = CHR 0xE2 \<and> take 2 s = [CHR 0x84, CHR 0xAA])"
    by blast
  then show ?case
  proof cases
    case ascii
    with "4.prems"(1,2) have f: "ascii_fold sr tr" "ascii_fold sr br" "EqualFold s t" "EqualFold s bt"
      by (simp_all add: b)
    have "tr = br" using f(1,2) pl(1,2) by (rule ascii_fold_plain_unique)
    moreover have "t = bt" using "4.IH"(1) [OF ascii f(3,4) pl(3,4)] .
    ultimately show ?thesis by (simp add: b)
  next
    case long_s
    with "4.prems"(1,2) pl(1,2) have f: "tr = CHR ''S''" "br = CHR ''S''"
      "EqualFold (drop 1 s) t" "EqualFold (drop 1 s) bt"
      by (auto simp: b s_not_plain split: if_splits)
    have c: "sr = CHR 0xC5 \<and> take 1 s = [CHR 0xBF] \<and> (tr = CHR ''s'' \<or> tr = CHR ''S'')"
      using long_s f by simp
    have "t = bt" using "4.IH"(2) [OF long_s(1) c f(3,4) pl(3,4)] .
    then show ?thesis by (simp add: b f)
  next
    case kelvin
    with "4.prems"(1,2) pl(1,2) have f: "tr = CHR ''K''" "br = CHR ''K''"
      "EqualFold (drop 2 s) t" "EqualFold (drop 2 s) bt"
      by (auto simp: b s_not_plain split: if_splits)
    have c1: "\<not> (sr = CHR 0xC5 \<and> take 1 s = [CHR 0xBF] \<and> (tr = CHR ''s'' \<or> tr = CHR ''S''))"
      using kelvin by simp
    have c2: "sr = CHR 0xE2 \<and> take 2 s = [CHR 0x84, CHR 0xAA] \<and> (tr = CHR ''k'' \<or> tr = CHR ''K'')"
      using kelvin f by simp
    have "t = bt" using "4.IH"(3) [OF kelvin(1) c1 c2 f(3,4) pl(3,4)] .
    then show ?thesis by (simp add: b f)
  next
    case other
    with "4.prems"(1) show ?thesis by (simp split: if_splits)
  qed
qed





lemma ascii_fold_lower_upper:
  "ascii_fold c (CHR ''a'') \<Longrightarrow> ascii_fold c (CHR ''A'')"
  "ascii_fold c (CHR ''l'') \<Longrightarrow> ascii_fold c (CHR ''L'')"
  unfolding ascii_fold_nat by (auto simp: min_def max_def split: if_splits)

lemma EqualFold_all: "EqualFold n ''all'' \<Longrightarrow> EqualFold n ''ALL''"
proof -
  assume a: "EqualFold n ''all''"
  then obtain c1 n1 where n: "n = c1 # n1" by (cases n) auto
  with a have a1: "(of_char c1 :: nat) < 0x80" "ascii_fold c1 (CHR ''a'')" "EqualFold n1 ''ll''"
    by (auto split: if_splits)
  then obtain c2 n2 where n1: "n1 = c2 # n2" by (cases n1) auto
  with a1 have a2: "(of_char c2 :: nat) < 0x80" "ascii_fold c2 (CHR ''l'')" "EqualFold n2 ''l''"
    by (auto split: if_splits)
  then obtain c3 n3 where n2: "n2 = c3 # n3" by (cases n2) auto
  with a2 have a3: "(of_char c3 :: nat) < 0x80" "ascii_fold c3 (CHR ''l'')" "EqualFold n3 []"
    by (auto split: if_splits)
  then have n3: "n3 = []" by (cases n3) auto
  show ?thesis
    using a1(1,2) a2(1,2) a3(1,2) by (simp add: n n1 n2 n3 ascii_fold_lower_upper)
qed

lemma eventNames_plain: "e \<in> eventNames \<Longrightarrow> set e \<subseteq> plain \<and> e \<noteq> []"
  unfolding eventNames_def by (elim insertE emptyE; simp add: plain_def)

lemma ALL_plain: "set ''ALL'' \<subseteq> plain" "set ''CUSTOM'' \<subseteq> plain"
  by (simp_all add: plain_nat)

lemma ALL_not_native: "''ALL'' \<notin> eventNames"
  by (simp add: eventNames_def)

lemma fold_native_not_all:
  assumes "e \<in> eventNames" "EqualFold n e"
  shows "\<not> EqualFold n eventAll"
proof
  assume "EqualFold n eventAll"
  then have "EqualFold n ''ALL''" by (simp add: eventAll_def EqualFold_all)
  with assms(2) have "e = ''ALL''"
    using EqualFold_unique eventNames_plain [OF assms(1)] ALL_plain(1) by blast
  with assms(1) ALL_not_native show False by simp
qed

lemma fold_native_not_CUSTOM:
  assumes "e \<in> eventNames" "e \<noteq> ''CUSTOM''" "EqualFold n e"
  shows "\<not> EqualFold n ''CUSTOM''"
  using EqualFold_unique [OF assms(3) _ _ ALL_plain(2)] eventNames_plain [OF assms(1)] assms(2)
  by blast







lemma Join_nonempty: "xs \<noteq> [] \<Longrightarrow> [] \<notin> set xs \<Longrightarrow> Join xs sep \<noteq> []"
  by (induction xs sep rule: Join.induct) simp_all

lemma names_loop_native:
  assumes "n \<in> eventNames" "n \<noteq> ''CUSTOM''"
  shows "names_loop (n # ns) (native, custom, isCustom) =
         names_loop ns ((if native \<noteq> [] then native @ '' '' else native) @ n, custom, isCustom)"
proof -
  have r: "EqualFold n n" using eventNames_plain [OF assms(1)] by (simp add: EqualFold_refl)
  have "n \<noteq> []" using eventNames_plain [OF assms(1)] by simp
  moreover have "\<not> EqualFold n eventAll" using fold_native_not_all [OF assms(1) r] .
  moreover have "\<not> EqualFold n ''CUSTOM''" using fold_native_not_CUSTOM [OF assms r] .
  ultimately show ?thesis using assms(1) by simp
qed

lemma names_loop_natives:
  "set ns \<subseteq> eventNames - {''CUSTOM''} \<Longrightarrow>
   names_loop ns (native, custom, isCustom) =
     Some (if ns = [] then native
           else (if native \<noteq> [] then native @ '' '' else []) @ Join ns '' '',
           custom, isCustom)"
proof (induction ns arbitrary: native)
  case Nil
  then show ?case by simp
next
  case (Cons n ns)
  then have n: "n \<in> eventNames" "n \<noteq> ''CUSTOM''" and ns: "set ns \<subseteq> eventNames - {''CUSTOM''}"
    by auto
  have ne: "n \<noteq> []" using eventNames_plain [OF n(1)] by simp
  show ?case
    unfolding names_loop_native [OF n] Cons.IH [OF ns]
    using ne by (cases ns) simp_all
qed


lemma natives_nonempty: "set ns \<subseteq> eventNames - {''CUSTOM''} \<Longrightarrow> [] \<notin> set ns"
  using eventNames_plain by blast


text \<open>
  Claim C4, as amended.  \<^verbatim>\<open>buildEventNamesCmd\<close> returns \<^verbatim>\<open>all\<close> for no name and for the
  single name \<^verbatim>\<open>all\<close> in any letter case; it returns
  \<^verbatim>\<open>CUSTOM conference::maintenance\<close> and \<^verbatim>\<open>CHANNEL_CREATE CUSTOM sofia::register\<close> for the
  two lists of the claim; and for a non-empty list of names of the table other than
  \<^verbatim>\<open>CUSTOM\<close> it returns the names in their order, with a space between them.
\<close>

theorem buildEventNamesCmd_results:
  "buildEventNamesCmd [] = ''all'' \<and>
   (a \<in> {CHR ''a'', CHR ''A''} \<and> l \<in> {CHR ''l'', CHR ''L''} \<and> l' \<in> {CHR ''l'', CHR ''L''} \<longrightarrow>
      buildEventNamesCmd [[a, l, l']] = ''all'') \<and>
   buildEventNamesCmd [''CUSTOM'', ''conference::maintenance''] = ''CUSTOM conference::maintenance'' \<and>
   buildEventNamesCmd [''CHANNEL_CREATE'', ''CUSTOM'', ''sofia::register'']
     = ''CHANNEL_CREATE CUSTOM sofia::register'' \<and>
   (names \<noteq> [] \<and> set names \<subseteq> eventNames - {''CUSTOM''} \<longrightarrow>
      buildEventNamesCmd names = Join names '' '')"
proof (intro conjI impI)
  show "buildEventNamesCmd [] = ''all''"
    by (simp add: buildEventNamesCmd_def eventAll_def)
  show "buildEventNamesCmd [[a, l, l']] = ''all''"
    if "a \<in> {CHR ''a'', CHR ''A''} \<and> l \<in> {CHR ''l'', CHR ''L''} \<and> l' \<in> {CHR ''l'', CHR ''L''}"
    using that by (auto simp: buildEventNamesCmd_def eventAll_def ascii_fold_def)
  show "buildEventNamesCmd [''CUSTOM'', ''conference::maintenance''] = ''CUSTOM conference::maintenance''"
    by (simp add: buildEventNamesCmd_def eventAll_def ascii_fold_def eventNames_def TrimPrefix_def
        HasPrefix_def)
  show "buildEventNamesCmd [''CHANNEL_CREATE'', ''CUSTOM'', ''sofia::register'']
      = ''CHANNEL_CREATE CUSTOM sofia::register''"
    by (simp add: buildEventNamesCmd_def eventAll_def ascii_fold_def eventNames_def TrimPrefix_def
        HasPrefix_def)
  show "buildEventNamesCmd names = Join names '' ''"
    if h: "names \<noteq> [] \<and> set names \<subseteq> eventNames - {''CUSTOM''}"
  proof -
    from h have ne: "names \<noteq> []" and sub: "set names \<subseteq> eventNames - {''CUSTOM''}" by simp_all
    obtain n ns where names: "names = n # ns" using ne by (cases names) auto
    with sub have n: "n \<in> eventNames" by simp
    have r: "EqualFold n n" using eventNames_plain [OF n] by (simp add: EqualFold_refl)
    have hd: "hd names \<noteq> []" "\<not> EqualFold (hd names) eventAll"
      using eventNames_plain [OF n] fold_native_not_all [OF n r] by (simp_all add: names)
    have j: "Join names '' '' \<noteq> []"
      using Join_nonempty [OF ne natives_nonempty [OF sub]] .
    show ?thesis
      unfolding buildEventNamesCmd_def names_loop_natives [OF sub]
      using ne hd j by simp
  qed
qed

theorem buildEventNamesCmd_results_witness:
  "buildEventNamesCmd [''AlL''] = ''all'' \<and>
   buildEventNamesCmd [''CHANNEL_CREATE'', ''API'', ''CHANNEL_ANSWER'']
     = ''CHANNEL_CREATE API CHANNEL_ANSWER''"
  using buildEventNamesCmd_results
    [of "CHR ''A''" "CHR ''l''" "CHR ''L''" "[''CHANNEL_CREATE'', ''API'', ''CHANNEL_ANSWER'']"]
  by (simp add: eventNames_def)

text \<open>
  The claim as it stands fails: \<^verbatim>\<open>CUSTOM\<close> is a key of the table, and the list
  \<^verbatim>\<open>CUSTOM\<close>, \<^verbatim>\<open>CHANNEL_CREATE\<close> of two names of the table comes out in the other order.
\<close>

theorem buildEventNamesCmd_order_counterexample:
  "set [''CUSTOM'', ''CHANNEL_CREATE''] \<subseteq> eventNames \<and>
   buildEventNamesCmd [''CUSTOM'', ''CHANNEL_CREATE''] = ''CHANNEL_CREATE CUSTOM'' \<and>
   buildEventNamesCmd [''CUSTOM'', ''CHANNEL_CREATE''] \<noteq> Join [''CUSTOM'', ''CHANNEL_CREATE''] '' ''"
  by (simp add: buildEventNamesCmd_def eventAll_def ascii_fold_def eventNames_def)



section \<open>Serializing commands\<close>

lemma sort_range_order: "range_order h ks \<Longrightarrow> sort ks = sorted_list_of_fset (fmdom h)"
  unfolding range_order_def sorted_list_of_fset.rep_eq
  by (intro sorted_distinct_set_unique) simp_all

lemma strict_sorted_list_of_fset: "sorted_wrt (<) (sorted_list_of_fset S)"
  unfolding sorted_list_of_fset.rep_eq by simp

lemma fold_fmupd_lookup:
  "distinct (map fst kvs) \<Longrightarrow>
   fmlookup (fold (\<lambda>(k, v) m. fmupd k v m) kvs m0) k =
     (case map_of kvs k of Some v \<Rightarrow> Some v | None \<Rightarrow> fmlookup m0 k)"
proof (induction kvs arbitrary: m0)
  case Nil
  then show ?case by simp
next
  case (Cons kv kvs)
  obtain k' v' where kv: "kv = (k', v')" by (cases kv)
  from Cons.prems have d: "distinct (map fst kvs)" and n: "k' \<notin> fst ` set kvs"
    by (simp_all add: kv)
  from n have "map_of kvs k' = None" by (simp add: map_of_eq_None_iff)
  then show ?case
    using Cons.IH [OF d, of "fmupd k' v' m0"] by (auto simp: kv split: option.splits)
qed

lemma insert_all_perm:
  assumes "distinct (map fst kvs)" "mset kvs' = mset kvs"
  shows "insert_all kvs' = insert_all kvs"
proof (rule fmap_ext)
  fix k
  have s: "set kvs' = set kvs" using assms(2) by (rule mset_eq_setD)
  have "mset (map fst kvs') = mset (map fst kvs)" using assms(2) by simp
  then have d': "distinct (map fst kvs')" using assms(1) by (metis mset_eq_imp_distinct_iff)
  have "map_of kvs' = map_of kvs" using map_of_inject_set [OF d' assms(1)] s by simp
  then show "fmlookup (insert_all kvs') k = fmlookup (insert_all kvs) k"
    unfolding insert_all_def fold_fmupd_lookup [OF d'] fold_fmupd_lookup [OF assms(1)] by simp
qed

text \<open>
  Claim C3.  For a command with a non-empty header map, whatever the order \<open>ks\<close> in which
  the map yields its keys, \<^verbatim>\<open>command.WriteTo\<close> writes the command line, then one line
  \<^verbatim>\<open>\n<key>: <value>\<close> for each key of the map in strictly ascending order of the keys,
  then the content; and a map built from the same pairs inserted in another order gives
  the same bytes.
\<close>

theorem command_WriteTo_sorted:
  assumes "fmdom (c_headers c) \<noteq> {||}" and "range_order (c_headers c) ks"
  shows
    "(let keys = sorted_list_of_fset (fmdom (c_headers c)) in
        sorted_wrt (<) keys \<and> set keys = fset (fmdom (c_headers c)) \<and>
        command_WriteTo_range ks c =
          name c @
          (if params c \<noteq> [] then '' '' @ params c else []) @
          (if c_jobUUID c \<noteq> [] then [CHR 0x0A] @ ''Job-UUID: '' @ c_jobUUID c else []) @
          concat (map (\<lambda>k. [CHR 0x0A] @ k @ '': '' @ hget (c_headers c) k) keys) @
          (if c_body c \<noteq> [] then
             [CHR 0x0A] @ ''content-length: '' @ Itoa (int (length (c_body c))) @
             [CHR 0x0A, CHR 0x0A] @ c_body c
           else [])) \<and>
     (distinct (map fst kvs) \<and> mset kvs' = mset kvs \<and> c_headers c = insert_all kvs \<and>
      range_order (insert_all kvs') ks' \<longrightarrow>
        command_WriteTo_range ks' (c\<lparr>c_headers := insert_all kvs'\<rparr>) = command_WriteTo_range ks c)"
proof (intro conjI impI)
  have k: "sort ks = sorted_list_of_fset (fmdom (c_headers c))"
    using assms(2) by (rule sort_range_order)
  show "let keys = sorted_list_of_fset (fmdom (c_headers c)) in
        sorted_wrt (<) keys \<and> set keys = fset (fmdom (c_headers c)) \<and>
        command_WriteTo_range ks c =
          name c @
          (if params c \<noteq> [] then '' '' @ params c else []) @
          (if c_jobUUID c \<noteq> [] then [CHR 0x0A] @ ''Job-UUID: '' @ c_jobUUID c else []) @
          concat (map (\<lambda>k. [CHR 0x0A] @ k @ '': '' @ hget (c_headers c) k) keys) @
          (if c_body c \<noteq> [] then
             [CHR 0x0A] @ ''content-length: '' @ Itoa (int (length (c_body c))) @
             [CHR 0x0A, CHR 0x0A] @ c_body c
           else [])"
    unfolding Let_def command_WriteTo_range_def k
    using assms(1) strict_sorted_list_of_fset [of "fmdom (c_headers c)"]
    by (simp add: command_header_line_def [abs_def])
  show "command_WriteTo_range ks' (c\<lparr>c_headers := insert_all kvs'\<rparr>) = command_WriteTo_range ks c"
    if h: "distinct (map fst kvs) \<and> mset kvs' = mset kvs \<and> c_headers c = insert_all kvs \<and>
      range_order (insert_all kvs') ks'"
  proof -
    from h have h1: "distinct (map fst kvs)" and h2: "mset kvs' = mset kvs"
      and h3: "c_headers c = insert_all kvs" and h4: "range_order (insert_all kvs') ks'"
      by blast+
    have e: "insert_all kvs' = c_headers c"
      unfolding h3 using h1 h2 by (rule insert_all_perm)
    have "range_order (c_headers c) ks'" using h4 unfolding e .
    then have "sort ks' = sort ks" unfolding k by (rule sort_range_order)
    then show ?thesis
      unfolding command_WriteTo_range_def e by (simp add: command_header_line_def [abs_def])
  qed
qed

theorem command_WriteTo_sorted_witness:
  "command_WriteTo_range [''to-uri'', ''profile'', ''content-type'']
     \<lparr>name = ''sendevent'', params = ''SEND_INFO'', c_jobUUID = [],
      c_headers = insert_all [(''profile'', ''external''), (''content-type'', ''text/plain''),
        (''to-uri'', ''sip:1@2.3.4.5'')],
      c_body = ''test''\<rparr>
   = ''sendevent SEND_INFO'' @ [CHR 0x0A] @ ''content-type: text/plain'' @ [CHR 0x0A] @
     ''profile: external'' @ [CHR 0x0A] @ ''to-uri: sip:1@2.3.4.5'' @ [CHR 0x0A] @
     ''content-length: 4'' @ [CHR 0x0A, CHR 0x0A] @ ''test'' \<and>
   command_WriteTo_range [''profile'', ''to-uri'', ''content-type'']
     \<lparr>name = ''sendevent'', params = ''SEND_INFO'', c_jobUUID = [],
      c_headers = insert_all [(''to-uri'', ''sip:1@2.3.4.5''), (''profile'', ''external''),
        (''content-type'', ''text/plain'')],
      c_body = ''test''\<rparr>
   = command_WriteTo_range [''to-uri'', ''profile'', ''content-type'']
     \<lparr>name = ''sendevent'', params = ''SEND_INFO'', c_jobUUID = [],
      c_headers = insert_all [(''profile'', ''external''), (''content-type'', ''text/plain''),
        (''to-uri'', ''sip:1@2.3.4.5'')],
      c_body = ''test''\<rparr>"
proof -
  let ?kvs = "[(''profile'', ''external''), (''content-type'', ''text/plain''),
        (''to-uri'', ''sip:1@2.3.4.5'')]"
  let ?kvs' = "[(''to-uri'', ''sip:1@2.3.4.5''), (''profile'', ''external''),
        (''content-type'', ''text/plain'')]"
  let ?c = "\<lparr>name = ''sendevent'', params = ''SEND_INFO'', c_jobUUID = [],
      c_headers = insert_all ?kvs, c_body = ''test''\<rparr>"
  have d: "fmdom (c_headers ?c) \<noteq> {||}" by (simp add: insert_all_def)
  have r: "range_order (c_headers ?c) [''to-uri'', ''profile'', ''content-type'']"
    by (auto simp: range_order_def insert_all_def)
  have r': "range_order (insert_all ?kvs') [''profile'', ''to-uri'', ''content-type'']"
    by (auto simp: range_order_def insert_all_def)
  have s: "sorted_list_of_fset (fmdom (c_headers ?c)) = [''content-type'', ''profile'', ''to-uri'']"
    by code_simp
  have i: "Itoa (int (length (c_body ?c))) = ''4''" by code_simp
  have m: "mset ?kvs' = mset ?kvs" by (simp add: add_mset_commute)
  have dk: "distinct (map fst ?kvs)" by simp
  note T = command_WriteTo_sorted [OF d r, of ?kvs ?kvs' "[''profile'', ''to-uri'', ''content-type'']",
      unfolded Let_def s i]
  have A: "command_WriteTo_range [''to-uri'', ''profile'', ''content-type''] ?c
   = ''sendevent SEND_INFO'' @ [CHR 0x0A] @ ''content-type: text/plain'' @ [CHR 0x0A] @
     ''profile: external'' @ [CHR 0x0A] @ ''to-uri: sip:1@2.3.4.5'' @ [CHR 0x0A] @
     ''content-length: 4'' @ [CHR 0x0A, CHR 0x0A] @ ''test''"
    using T [THEN conjunct1] by (simp add: hget_def insert_all_def)
  have B: "command_WriteTo_range [''profile'', ''to-uri'', ''content-type''] (?c\<lparr>c_headers := insert_all ?kvs'\<rparr>)
     = command_WriteTo_range [''to-uri'', ''profile'', ''content-type''] ?c"
    using T [THEN conjunct2] dk m r' by simp
  show ?thesis using A B by simp
qed

section \<open>Writing the zero command\<close>

text \<open>
  Claim C9.  \<^verbatim>\<open>conn.Write\<close> of a command with the empty name returns no error and leaves
  the connection as it was: no byte of the command and no frame terminator is written.
\<close>

theorem conn_Write_zero_command:
  "name cm = [] \<Longrightarrow> IsZero cm \<and> conn_Write c cm = (c, None) \<and> wr (fst (conn_Write c cm)) = wr c"
  by (simp add: IsZero_def conn_Write_def)

theorem conn_Write_zero_command_witness:
  "conn_Write \<lparr>rd = [], wr = ''api status'', wfail = Some ErrWriter\<rparr>
     \<lparr>name = [], params = ''status'', c_jobUUID = ''j'', c_headers = fmupd ''a'' ''b'' fmempty,
      c_body = ''text''\<rparr>
   = (\<lparr>rd = [], wr = ''api status'', wfail = Some ErrWriter\<rparr>, None)"
  using conn_Write_zero_command
    [of "\<lparr>name = [], params = ''status'', c_jobUUID = ''j'', c_headers = fmupd ''a'' ''b'' fmempty,
      c_body = ''text''\<rparr>" "\<lparr>rd = [], wr = ''api status'', wfail = Some ErrWriter\<rparr>"]
  by simp


section \<open>The authentication handshake\<close>

lemma command_WriteTo_cmd:
  "cmd nm [p] = Inr a \<Longrightarrow> command_WriteTo a = nm @ (if p \<noteq> [] then '' '' @ p else [])"
  by (auto simp: cmd_def command_WriteTo_def command_WriteTo_range_def split: if_splits)

text \<open>
  Claim C6.  When the first frame is an \<^verbatim>\<open>auth/request\<close> and the command
  \<^verbatim>\<open>auth <password>\<close> has been written, and the reply frame \<open>r2\<close> has been read:
  \<^verbatim>\<open>Auth\<close> succeeds exactly when the reply is a \<^verbatim>\<open>command/reply\<close> with the text
  \<^verbatim>\<open>+OK accepted\<close>; a \<^verbatim>\<open>command/reply\<close> with another text is the error
  \<^verbatim>\<open>ErrInvalidPassword\<close>; another content type is the error of the unexpected content type.
\<close>

theorem Auth_reply:
  assumes "conn_Read c = (c1, r1, None)" and "contentType r1 = ''auth/request''"
    and "cmd ''auth'' [password] = Inr a" and "conn_Write c1 a = (c2, None)"
    and "conn_Read c2 = (c3, r2, None)"
  shows
    "wr c2 = wr c1 @ ''auth'' @ (if password \<noteq> [] then '' '' @ password else []) @ [CHR 0x0A, CHR 0x0A] \<and>
     (contentType r2 = ''command/reply'' \<and> replyText r2 = ''+OK accepted'' \<longrightarrow>
        snd (Auth c password) = None) \<and>
     (contentType r2 = ''command/reply'' \<and> replyText r2 \<noteq> ''+OK accepted'' \<longrightarrow>
        snd (Auth c password) = Some ErrInvalidPassword) \<and>
     (contentType r2 \<noteq> ''command/reply'' \<longrightarrow>
        snd (Auth c password) = Some (ErrUnexpectedAuthResponseContentType (contentType r2))) \<and>
     (snd (Auth c password) = None \<longleftrightarrow>
        contentType r2 = ''command/reply'' \<and> replyText r2 = ''+OK accepted'')"
proof -
  have nz: "\<not> IsZero a" using assms(3) by (auto simp: cmd_def IsZero_def split: if_splits)
  have w: "wr c2 = wr c1 @ ''auth'' @ (if password \<noteq> [] then '' '' @ password else []) @ [CHR 0x0A, CHR 0x0A]"
    using assms(4) nz command_WriteTo_cmd [OF assms(3)]
    by (auto simp: conn_Write_def split: option.splits)
  have A: "snd (Auth c password) =
     (if contentType r2 \<noteq> ''command/reply'' then
        Some (ErrUnexpectedAuthResponseContentType (contentType r2))
      else if replyText r2 \<noteq> ''+OK accepted'' then Some ErrInvalidPassword else None)"
    unfolding Auth_def using assms by (simp add: commandReply_def)
  show ?thesis using w A by simp
qed

theorem Auth_reply_witness:
  "snd (Auth \<lparr>rd = ''Content-Type: auth/request'' @ [CHR 0x0A, CHR 0x0A] @
          ''Content-Type: command/reply'' @ [CHR 0x0A] @ ''Reply-Text: +OK accepted'' @
          [CHR 0x0A, CHR 0x0A], wr = [], wfail = None\<rparr> ''ClueCon'') = None \<and>
   snd (Auth \<lparr>rd = ''Content-Type: auth/request'' @ [CHR 0x0A, CHR 0x0A] @
          ''Content-Type: command/reply'' @ [CHR 0x0A] @ ''Reply-Text: -ERR invalid'' @
          [CHR 0x0A, CHR 0x0A], wr = [], wfail = None\<rparr> ''ClueCon'') = Some ErrInvalidPassword \<and>
   snd (Auth \<lparr>rd = ''Content-Type: auth/request'' @ [CHR 0x0A, CHR 0x0A] @
          ''Content-Type: api/response'' @ [CHR 0x0A] @ ''Reply-Text: +OK accepted'' @
          [CHR 0x0A, CHR 0x0A], wr = [], wfail = None\<rparr> ''ClueCon'')
     = Some (ErrUnexpectedAuthResponseContentType ''api/response'')"
proof -
  let ?req = "\<lparr>contentType = ''auth/request'', replyText = [], jobUUID = [], body = []\<rparr>"
  let ?a = "\<lparr>name = ''auth'', params = ''ClueCon'', c_jobUUID = [], c_headers = fmempty, c_body = []\<rparr>"
  let ?sent = "''auth ClueCon'' @ [CHR 0x0A, CHR 0x0A]"
  let ?t1 = "''Content-Type: command/reply'' @ [CHR 0x0A] @ ''Reply-Text: +OK accepted'' @ [CHR 0x0A, CHR 0x0A]"
  let ?t2 = "''Content-Type: command/reply'' @ [CHR 0x0A] @ ''Reply-Text: -ERR invalid'' @ [CHR 0x0A, CHR 0x0A]"
  let ?t3 = "''Content-Type: api/response'' @ [CHR 0x0A] @ ''Reply-Text: +OK accepted'' @ [CHR 0x0A, CHR 0x0A]"
  have a: "cmd ''auth'' [''ClueCon''] = Inr ?a" by code_simp
  have ct: "contentType ?req = ''auth/request''" by simp
  have r1: "conn_Read \<lparr>rd = ''Content-Type: auth/request'' @ [CHR 0x0A, CHR 0x0A] @ ?t1, wr = [], wfail = None\<rparr>
      = (\<lparr>rd = ?t1, wr = [], wfail = None\<rparr>, ?req, None)" by code_simp
  have w1: "conn_Write \<lparr>rd = ?t1, wr = [], wfail = None\<rparr> ?a = (\<lparr>rd = ?t1, wr = ?sent, wfail = None\<rparr>, None)"
    by code_simp
  have s1: "conn_Read \<lparr>rd = ?t1, wr = ?sent, wfail = None\<rparr>
      = (\<lparr>rd = [], wr = ?sent, wfail = None\<rparr>,
         \<lparr>contentType = ''command/reply'', replyText = ''+OK accepted'', jobUUID = [], body = []\<rparr>, None)"
    by code_simp
  have r2: "conn_Read \<lparr>rd = ''Content-Type: auth/request'' @ [CHR 0x0A, CHR 0x0A] @ ?t2, wr = [], wfail = None\<rparr>
      = (\<lparr>rd = ?t2, wr = [], wfail = None\<rparr>, ?req, None)" by code_simp
  have w2: "conn_Write \<lparr>rd = ?t2, wr = [], wfail = None\<rparr> ?a = (\<lparr>rd = ?t2, wr = ?sent, wfail = None\<rparr>, None)"
    by code_simp
  have s2: "conn_Read \<lparr>rd = ?t2, wr = ?sent, wfail = None\<rparr>
      = (\<lparr>rd = [], wr = ?sent, wfail = None\<rparr>,
         \<lparr>contentType = ''command/reply'', replyText = ''-ERR invalid'', jobUUID = [], body = []\<rparr>, None)"
    by code_simp
  have r3: "conn_Read \<lparr>rd = ''Content-Type: auth/request'' @ [CHR 0x0A, CHR 0x0A] @ ?t3, wr = [], wfail = None\<rparr>
      = (\<lparr>rd = ?t3, wr = [], wfail = None\<rparr>, ?req, None)" by code_simp
  have w3: "conn_Write \<lparr>rd = ?t3, wr = [], wfail = None\<rparr> ?a = (\<lparr>rd = ?t3, wr = ?sent, wfail = None\<rparr>, None)"
    by code_simp
  have s3: "conn_Read \<lparr>rd = ?t3, wr = ?sent, wfail = None\<rparr>
      = (\<lparr>rd = [], wr = ?sent, wfail = None\<rparr>,
         \<lparr>contentType = ''api/response'', replyText = ''+OK accepted'', jobUUID = [], body = []\<rparr>, None)"
    by code_simp
  show ?thesis
    using Auth_reply [OF r1 ct a w1 s1] Auth_reply [OF r2 ct a w2 s2] Auth_reply [OF r3 ct a w3 s3]
    by simp
qed


section \<open>Bodies shorter than their Content-Length\<close>

text \<open>
  What both parsers do with the bytes left after the headers: a body of the announced
  length when there are enough of them, an error when there are not.  \<^verbatim>\<open>parseEvent\<close>
  then returns \<^verbatim>\<open>io.ErrUnexpectedEOF\<close>; \<^verbatim>\<open>conn.Read\<close> returns what \<^verbatim>\<open>io.ReadFull\<close>
  returns, which is \<^verbatim>\<open>io.EOF\<close> when no byte of the body is left.
\<close>

lemma parseEvent_body:
  assumes "parseEvent_loop b0 fmempty = (h, b, None)" and "len = fst (Atoi (hget h ''Content-Length''))"
  shows "int (length b) < len \<Longrightarrow> snd (parseEvent b0) = Some (ErrFailedToReadBody ErrUnexpectedEOF)"
    and "0 < len \<Longrightarrow> len \<le> int (length b) \<Longrightarrow>
           parseEvent b0 = (\<lparr>e_headers = h, e_body = take (nat len) b\<rparr>, None)"
  using assms by (auto simp: parseEvent_def Let_def min_def)

lemma conn_Read_body:
  assumes "Read_loop (rd c) 0 zero_response = (r, n, resp, None)" and "0 < n"
  shows "int (length r) < n \<Longrightarrow>
           snd (snd (conn_Read c)) =
             Some (ErrFailedToReadBody (if r = [] then EOF else ErrUnexpectedEOF))"
    and "n \<le> int (length r) \<Longrightarrow>
           conn_Read c = (c\<lparr>rd := drop (nat n) r\<rparr>, resp\<lparr>body := take (nat n) r\<rparr>, None)"
  using assms by (auto simp: conn_Read_def ReadFull_def)

text \<open>
  Claim C7.  A reply frame that announces five bytes of body and ends after its headers:
  \<^verbatim>\<open>conn.Read\<close> fails with \<^verbatim>\<open>failed to read body\<close> wrapping \<^verbatim>\<open>io.EOF\<close>, the plain end of
  stream, not \<^verbatim>\<open>io.ErrUnexpectedEOF\<close>.  With two of the five bytes it wraps
  \<^verbatim>\<open>io.ErrUnexpectedEOF\<close>, and \<^verbatim>\<open>parseEvent\<close> returns \<^verbatim>\<open>io.ErrUnexpectedEOF\<close> also when no
  byte is left.
\<close>

theorem conn_Read_short_body_EOF:
  "snd (snd (conn_Read \<lparr>rd = ''Content-Type: api/response'' @ [CHR 0x0A] @ ''Content-Length: 5'' @
       [CHR 0x0A, CHR 0x0A], wr = [], wfail = None\<rparr>)) = Some (ErrFailedToReadBody EOF) \<and>
   snd (snd (conn_Read \<lparr>rd = ''Content-Type: api/response'' @ [CHR 0x0A] @ ''Content-Length: 5'' @
       [CHR 0x0A, CHR 0x0A] @ ''ab'', wr = [], wfail = None\<rparr>)) = Some (ErrFailedToReadBody ErrUnexpectedEOF) \<and>
   snd (parseEvent (''Content-Length: 5'' @ [CHR 0x0A, CHR 0x0A])) =
     Some (ErrFailedToReadBody ErrUnexpectedEOF)"
  by code_simp

text \<open>
  \<^verbatim>\<open>parseEvent\<close> drops the error of \<^verbatim>\<open>strconv.Atoi\<close> with the comment
  \<^verbatim>\<open>use 0 as length on error\<close>; for a number beyond \<^verbatim>\<open>int\<close> the value it then uses is not 0
  but the largest \<^verbatim>\<open>int\<close>.
\<close>

lemma Atoi_out_of_range:
  "Atoi ''99999999999999999999'' = (9223372036854775807, Some ErrRange)"
  by code_simp

section \<open>Sequence and timestamp of an event\<close>

lemma char_of_int_nat: "0 \<le> x \<Longrightarrow> char_of (x :: int) = char_of (nat x)"
  using char_of_nat [of "nat x", where ?'a = int] by simp

lemma digit_char: "0 \<le> d \<Longrightarrow> d < 10 \<Longrightarrow>
  CHR ''0'' \<le> (char_of (48 + d :: int)) \<and> char_of (48 + d :: int) \<le> CHR ''9'' \<and>
  (of_char (char_of (48 + d :: int)) :: int) = 48 + d"
proof -
  assume d: "0 \<le> d" "d < 10"
  have n: "(of_char (char_of (48 + d)) :: nat) = nat (48 + d)"
    using d by (simp add: char_of_int_nat)
  have i: "(of_char (char_of (48 + d)) :: int) = 48 + d"
    using d by simp
  have "48 \<le> nat (48 + d) \<and> nat (48 + d) \<le> 57" using d by linarith
  then show ?thesis unfolding less_eq_char_def n i by simp
qed

lemma ParseUint_loop_append:
  "ParseUint_loop n (xs @ ys) =
     (case ParseUint_loop n xs of (m, None) \<Rightarrow> ParseUint_loop m ys | (m, Some e) \<Rightarrow> (m, Some e))"
  by (induction xs arbitrary: n) (simp_all add: Let_def)

lemma ParseUint_loop_utoa:
  "0 \<le> n \<Longrightarrow> n \<le> maxUint64 \<Longrightarrow> ParseUint_loop 0 (utoa n) = (n, None)"
proof (induction n rule: utoa.induct)
  case (1 n)
  show ?case
  proof (cases "n < 10")
    case True
    with "1.prems" digit_char [of n] show ?thesis
      by (subst utoa.simps) (simp add: maxUint64_def)
  next
    case False
    have d: "0 \<le> n mod 10" "n mod 10 < 10" by simp_all
    have ih: "ParseUint_loop 0 (utoa (n div 10)) = (n div 10, None)"
      using "1.IH" [OF False] "1.prems" by (simp add: maxUint64_def)
    have "n div 10 < maxUint64 div 10 + 1" using "1.prems" by (simp add: maxUint64_def)
    then show ?thesis
      using False "1.prems" digit_char [OF d]
      by (subst utoa.simps) (simp add: ParseUint_loop_append ih Let_def)
  qed
qed

lemma utoa_nonempty: "utoa n \<noteq> []"
  by (subst utoa.simps) simp

lemma hd_utoa_digit: "0 \<le> n \<Longrightarrow> CHR ''0'' \<le> hd (utoa n) \<and> hd (utoa n) \<le> CHR ''9''"
proof (induction n rule: utoa.induct)
  case (1 n)
  show ?case
  proof (cases "n < 10")
    case True
    with "1.prems" digit_char [of n] show ?thesis by (subst (1 2) utoa.simps) simp
  next
    case False
    with "1.IH" "1.prems" utoa_nonempty [of "n div 10"] show ?thesis
      by (subst (1 2) utoa.simps) simp
  qed
qed

lemma hd_utoa_no_sign: "0 \<le> n \<Longrightarrow> hd (utoa n) \<noteq> CHR ''+'' \<and> hd (utoa n) \<noteq> CHR ''-''"
  using hd_utoa_digit [of n] by (auto simp: less_eq_char_def)

lemma ParseInt_Itoa:
  assumes "- (2 ^ 63) \<le> i" "i < 2 ^ 63"
  shows "ParseInt (Itoa i) = (i, None)"
proof (cases "i < 0")
  case True
  have "ParseUint_loop 0 (utoa (- i)) = (- i, None)"
    using True assms by (intro ParseUint_loop_utoa) (simp_all add: maxUint64_def)
  then show ?thesis
    using True assms utoa_nonempty [of "- i"]
    by (simp add: ParseInt_def Itoa_def ParseUint_def)
next
  case False
  have "ParseUint_loop 0 (utoa i) = (i, None)"
    using False assms by (intro ParseUint_loop_utoa) (simp_all add: maxUint64_def)
  then show ?thesis
    using False assms utoa_nonempty [of i] hd_utoa_no_sign [of i]
    by (simp add: ParseInt_def Itoa_def ParseUint_def)
qed

lemma ParseInt_Nil: "ParseInt [] = (0, Some ErrSyntax)"
  by (simp add: ParseInt_def)





text \<open>
  A sequence number beyond \<^verbatim>\<open>int64\<close> fails to parse, and \<^verbatim>\<open>Sequence\<close> returns the bound
  \<^verbatim>\<open>strconv.ParseInt\<close> hands back with its range error, although the comment in the
  source says \<^verbatim>\<open>return 0 on error\<close>.
\<close>

lemma Sequence_out_of_range:
  "Sequence \<lparr>e_headers = fmupd ''Event-Sequence'' ''9223372036854775808'' fmempty, e_body = []\<rparr>
     = 9223372036854775807"
  by code_simp

section \<open>Marshalling an event to JSON and back\<close>

lemma ValidString_json_string: "ValidString s \<Longrightarrow> json_string s = s"
proof (induction s rule: ValidString.induct)
  case (1 s)
  show ?case
  proof (cases "s = []")
    case True
    then show ?thesis by (subst json_string.simps) simp
  next
    case False
    from "1.prems" False have w: "rune_width s \<noteq> 0"
      by (subst (asm) ValidString.simps) (simp add: Let_def split: if_splits)
    from "1.prems" False w have v: "ValidString (drop (rune_width s) s)"
      by (subst (asm) ValidString.simps) (simp add: Let_def)
    have "json_string (drop (rune_width s) s) = drop (rune_width s) s"
      using "1.IH" [OF False refl w v] .
    then show ?thesis
      using False w by (subst json_string.simps) (simp add: Let_def)
  qed
qed

lemma ValidString_body_key: "ValidString ''_body''"
  by code_simp

lemma map_of_keys:
  "map_of (map (\<lambda>k. (k, f k)) ks) x = (if x \<in> set ks then Some (f x) else None)"
  by (induction ks) auto

lemma json_Marshal_valid:
  assumes "\<forall>k \<in> fset (fmdom m). ValidString k \<and> ValidString (hget m k)"
  shows "json_Marshal False m = JObject (map (\<lambda>k. (k, hget m k)) (sorted_list_of_fset (fmdom m)))"
  unfolding json_Marshal_def using assms by (simp add: ValidString_json_string)

lemma json_Unmarshal_Marshal:
  assumes "\<forall>k \<in> fset (fmdom m). ValidString k \<and> ValidString (hget m k)"
  shows "json_Unmarshal (json_Marshal False m) fmempty = Inr (False, m)"
proof -
  let ?ms = "map (\<lambda>k. (k, hget m k)) (sorted_list_of_fset (fmdom m))"
  have d: "distinct (map fst ?ms)"
    by (simp add: comp_def sorted_list_of_fset.rep_eq)
  have "fold (\<lambda>(k, v) m. fmupd k v m) ?ms fmempty = m"
  proof (rule fmap_ext)
    fix x
    show "fmlookup (fold (\<lambda>(k, v) m. fmupd k v m) ?ms fmempty) x = fmlookup m x"
      unfolding fold_fmupd_lookup [OF d] map_of_keys
      by (cases "fmlookup m x") (auto simp: hget_def fmlookup_dom_iff dest: fmdom_notI)
  qed
  then show ?thesis
    unfolding json_Marshal_valid [OF assms] by simp
qed

text \<open>
  Claim C2, as amended.  For an event whose header map is not the nil map and has no key
  \<^verbatim>\<open>_body\<close>, and whose keys, values and body are valid UTF-8: \<^verbatim>\<open>MarshalJSON\<close> gives an
  object whose member names are the header keys, each once, and \<^verbatim>\<open>_body\<close> when the body
  is not empty; each header member holds the header's value and \<^verbatim>\<open>_body\<close> holds the
  body; and \<^verbatim>\<open>UnmarshalJSON\<close> of that document into a fresh event gives the event back.
\<close>

theorem MarshalJSON_UnmarshalJSON:
  assumes "\<not> nil_headers e"
    and "''_body'' \<notin> fset (fmdom (e_headers e))"
    and "\<forall>k \<in> fset (fmdom (e_headers e)). ValidString k \<and> ValidString (hget (e_headers e) k)"
    and "ValidString (e_body e)"
  shows "\<exists>ms. MarshalJSON e = Inr (JObject ms) \<and> distinct (map fst ms) \<and>
            set (map fst ms) =
              fset (fmdom (e_headers e)) \<union> (if e_body e \<noteq> [] then {''_body''} else {}) \<and>
            (\<forall>k \<in> fset (fmdom (e_headers e)). map_of ms k = fmlookup (e_headers e) k) \<and>
            (e_body e \<noteq> [] \<longrightarrow> map_of ms ''_body'' = Some (e_body e)) \<and>
            UnmarshalJSON zero_JEvent (JObject ms) = (e, None)"
proof -
  let ?h = "e_headers e"
  let ?h' = "if e_body e \<noteq> [] then fmupd ''_body'' (e_body e) ?h else ?h"
  let ?ms = "map (\<lambda>k. (k, hget ?h' k)) (sorted_list_of_fset (fmdom ?h'))"
  have v': "\<forall>k \<in> fset (fmdom ?h'). ValidString k \<and> ValidString (hget ?h' k)"
    using assms(2-4) by (auto simp: hget_def ValidString_body_key)
  have mh: "MarshalJSON e = Inr (json_Marshal False ?h')"
    using assms(1) by (simp add: MarshalJSON_def)
  have m: "MarshalJSON e = Inr (JObject ?ms)"
    unfolding mh json_Marshal_valid [OF v'] ..
  have d: "distinct (map fst ?ms)"
    by (simp add: comp_def sorted_list_of_fset.rep_eq)
  have k: "set (map fst ?ms) = fset (fmdom ?h) \<union> (if e_body e \<noteq> [] then {''_body''} else {})"
    by (simp add: comp_def)
  have l: "\<forall>k \<in> fset (fmdom ?h). map_of ?ms k = fmlookup ?h k"
    unfolding map_of_keys using assms(2)
    by (auto simp: hget_def fmlookup_dom_iff)
  have b: "e_body e \<noteq> [] \<longrightarrow> map_of ?ms ''_body'' = Some (e_body e)"
    unfolding map_of_keys by (simp add: hget_def)
  have u: "json_Unmarshal (JObject ?ms) fmempty = Inr (False, ?h')"
    using json_Unmarshal_Marshal [OF v'] unfolding json_Marshal_valid [OF v'] .
  have nb: "hget ?h ''_body'' = []" "fmdrop ''_body'' ?h = ?h"
    using assms(2) by (auto simp: hget_def fmlookup_dom_iff intro!: fmap_ext split: option.splits)
  have r: "UnmarshalJSON zero_JEvent (JObject ?ms) = (e, None)"
    unfolding UnmarshalJSON_def u
    using nb assms(1)
    by (cases "e_body e = []") (simp_all add: hget_def zero_JEvent_def fmdrop_fmupd_same)
  show ?thesis using m d k l b r by blast
qed

theorem MarshalJSON_UnmarshalJSON_witness:
  "MarshalJSON \<lparr>e_headers = fmupd ''Event-Name'' ''HEARTBEAT'' (fmupd ''Core-UUID'' ''a1'' fmempty),
       e_body = ''hello'', nil_headers = False\<rparr>
     = Inr (JObject [(''Core-UUID'', ''a1''), (''Event-Name'', ''HEARTBEAT''), (''_body'', ''hello'')]) \<and>
   UnmarshalJSON zero_JEvent
     (JObject [(''Core-UUID'', ''a1''), (''Event-Name'', ''HEARTBEAT''), (''_body'', ''hello'')])
     = (\<lparr>e_headers = fmupd ''Event-Name'' ''HEARTBEAT'' (fmupd ''Core-UUID'' ''a1'' fmempty),
       e_body = ''hello'', nil_headers = False\<rparr>, None)"
proof -
  let ?e = "\<lparr>e_headers = fmupd ''Event-Name'' ''HEARTBEAT'' (fmupd ''Core-UUID'' ''a1'' fmempty),
       e_body = ''hello'', nil_headers = False\<rparr>"
  have v: "ValidString ''Event-Name''" "ValidString ''HEARTBEAT''" "ValidString ''Core-UUID''"
    "ValidString ''a1''" "ValidString ''hello''"
    by code_simp+
  have a0: "\<not> nil_headers ?e" by simp
  have a1: "''_body'' \<notin> fset (fmdom (e_headers ?e))" by simp
  have a2: "\<forall>k \<in> fset (fmdom (e_headers ?e)). ValidString k \<and> ValidString (hget (e_headers ?e) k)"
    using v by (simp add: hget_def)
  have a3: "ValidString (e_body ?e)" using v by simp
  have m: "MarshalJSON ?e
     = Inr (JObject [(''Core-UUID'', ''a1''), (''Event-Name'', ''HEARTBEAT''), (''_body'', ''hello'')])"
    by code_simp
  from MarshalJSON_UnmarshalJSON [OF a0 a1 a2 a3] obtain ms where
    ms: "MarshalJSON ?e = Inr (JObject ms)" "UnmarshalJSON zero_JEvent (JObject ms) = (?e, None)"
    by blast
  from ms(1) m have "ms = [(''Core-UUID'', ''a1''), (''Event-Name'', ''HEARTBEAT''), (''_body'', ''hello'')]"
    by simp
  with ms(2) m show ?thesis by simp
qed

text \<open>
  The claim as it stands fails: a header named \<^verbatim>\<open>_body\<close> is taken for the body when the
  document is read back.
\<close>

theorem MarshalJSON_body_key_counterexample:
  "MarshalJSON \<lparr>e_headers = fmupd ''_body'' ''x'' fmempty, e_body = [], nil_headers = False\<rparr>
     = Inr (JObject [(''_body'', ''x'')]) \<and>
   UnmarshalJSON zero_JEvent (JObject [(''_body'', ''x'')])
     = (\<lparr>e_headers = fmempty, e_body = ''x'', nil_headers = False\<rparr>, None) \<and>
   \<lparr>e_headers = fmempty, e_body = ''x'', nil_headers = False\<rparr>
     \<noteq> \<lparr>e_headers = fmupd ''_body'' ''x'' fmempty, e_body = [], nil_headers = False\<rparr>"
proof -
  have "MarshalJSON \<lparr>e_headers = fmupd ''_body'' ''x'' fmempty, e_body = [], nil_headers = False\<rparr>
     = Inr (JObject [(''_body'', ''x'')])" by code_simp
  moreover have "UnmarshalJSON zero_JEvent (JObject [(''_body'', ''x'')])
     = (\<lparr>e_headers = fmempty, e_body = ''x'', nil_headers = False\<rparr>, None)" by code_simp
  ultimately show ?thesis by simp
qed

text \<open>
  With the nil header map, \<^verbatim>\<open>MarshalJSON\<close> gives no object: \<^verbatim>\<open>null\<close> for the zero event, a
  panic when there is a body.  \<^verbatim>\<open>UnmarshalJSON\<close> of \<^verbatim>\<open>null\<close> leaves an event with the nil map
  and the body it had.
\<close>

lemma MarshalJSON_nil_headers:
  "MarshalJSON zero_JEvent = Inr JNull"
  "MarshalJSON \<lparr>e_headers = fmempty, e_body = ''x'', nil_headers = True\<rparr>
     = Inl (Panic ''assignment to entry in nil map'')"
  "UnmarshalJSON \<lparr>e_headers = fmempty, e_body = ''x'', nil_headers = False\<rparr> JNull
     = (\<lparr>e_headers = fmempty, e_body = ''x'', nil_headers = True\<rparr>, None)"
  by code_simp+


section \<open>Writing an event and parsing it back\<close>

lemma IndexByte_append: "c \<notin> set xs \<Longrightarrow> IndexByte (xs @ c # ys) c = int (length xs)"
  by (induction xs) (auto simp: Let_def)

lemma skipNewLines_id: "CHR 0x0A \<notin> set v \<Longrightarrow> skipNewLines v = v"
  by (induction v rule: skipNewLines.induct) auto

lemma parseEvent_loop_step:
  assumes "CHR 0x0A \<notin> set L" "L \<noteq> []" "L \<noteq> [CHR 0x0D]"
  shows "parseEvent_loop (L @ CHR 0x0A # rest) h =
     (let idx = IndexByte L (CHR '':'') in
      if idx \<le> 0 then (h, rest, Some (ErrMalformedHeaderLine L))
      else
        let key = take (nat idx) L;
            val = trimLeft (drop (nat idx + 1) L);
            val = (case PathUnescape val of Some v \<Rightarrow> v | None \<Rightarrow> val)
        in parseEvent_loop rest (fmupd key val h))"
  by (subst parseEvent_loop.simps) (simp add: IndexByte_append [OF assms(1)] Let_def assms(2,3))

lemma parseEvent_loop_line:
  assumes "wire_key k" "wire_value v"
  shows "parseEvent_loop (k @ '': '' @ v @ [CHR 0x0A] @ rest) h = parseEvent_loop rest (fmupd k v h)"
proof -
  let ?line = "k @ CHR '':'' # CHR '' '' # v"
  have nl: "CHR 0x0A \<notin> set ?line" using assms by (simp add: wire_key_def wire_value_def)
  have idx: "IndexByte ?line (CHR '':'') = int (length k)"
    using assms(1) by (intro IndexByte_append) (simp add: wire_key_def)
  have k: "k \<noteq> []" using assms(1) by (simp add: wire_key_def)
  then have l0: "?line \<noteq> []" and l1: "?line \<noteq> [CHR 0x0D]" by (cases k; simp)+
  have tl: "trimLeft (CHR '' '' # v) = v" using assms(2) by (simp add: wire_value_def)
  have pu: "(case PathUnescape v of Some v' \<Rightarrow> v' | None \<Rightarrow> v) = v"
    using assms(2) by (auto simp: wire_value_def split: option.splits)
  have b: "k @ '': '' @ v @ [CHR 0x0A] @ rest = ?line @ CHR 0x0A # rest" by simp
  have dr: "drop (nat (int (length k)) + 1) ?line = CHR '' '' # v" by simp
  have tk: "take (nat (int (length k))) ?line = k" by simp
  show ?thesis
    unfolding b parseEvent_loop_step [OF nl l0 l1] idx Let_def tk dr tl pu
    using k by simp
qed

lemma parseEvent_loop_lines:
  assumes "\<forall>k \<in> set ks. wire_key k \<and> wire_value (hget (e_headers e) k)"
  shows "parseEvent_loop (concat (map (event_header_line e) ks) @ rest) h =
         parseEvent_loop rest (fold (\<lambda>k. fmupd k (hget (e_headers e) k)) ks h)"
  using assms
proof (induction ks arbitrary: h)
  case Nil
  then show ?case by simp
next
  case (Cons k ks)
  then have k: "wire_key k" "wire_value (hget (e_headers e) k)" by simp_all
  have s: "skipNewLines (hget (e_headers e) k) = hget (e_headers e) k"
    using k(2) by (simp add: wire_value_def skipNewLines_id)
  have "concat (map (event_header_line e) (k # ks)) @ rest =
        k @ '': '' @ hget (e_headers e) k @ [CHR 0x0A] @ (concat (map (event_header_line e) ks) @ rest)"
    by (simp add: event_header_line_def s)
  then show ?case
    using parseEvent_loop_line [OF k] Cons.IH Cons.prems by simp
qed

lemma fold_fmupd_keys:
  "fmlookup (fold (\<lambda>k. fmupd k (f k)) ks h) x = (if x \<in> set ks then Some (f x) else fmlookup h x)"
  by (induction ks arbitrary: h) auto

lemma utoa_digits: "0 \<le> n \<Longrightarrow> \<forall>c \<in> set (utoa n). CHR ''0'' \<le> c \<and> c \<le> CHR ''9''"
proof (induction n rule: utoa.induct)
  case (1 n)
  show ?case
  proof (cases "n < 10")
    case True
    with "1.prems" digit_char [of n] show ?thesis by (subst utoa.simps) simp
  next
    case False
    have d: "0 \<le> n mod 10" "n mod 10 < 10" by simp_all
    from False "1.IH" "1.prems" digit_char [OF d] show ?thesis
      by (subst utoa.simps) simp
  qed
qed

lemma PathUnescape_no_percent: "CHR ''%'' \<notin> set s \<Longrightarrow> PathUnescape s = Some s"
  by (induction s) auto

lemma trimLeft_id: "s \<noteq> [] \<Longrightarrow> hd s \<noteq> CHR '' '' \<Longrightarrow> hd s \<noteq> CHR 0x09 \<Longrightarrow> trimLeft s = s"
  by (cases s) auto

lemma wire_value_utoa: "0 \<le> n \<Longrightarrow> wire_value (utoa n)"
proof -
  assume n: "0 \<le> n"
  have d: "\<forall>c \<in> set (utoa n). CHR ''0'' \<le> c \<and> c \<le> CHR ''9''" using n by (rule utoa_digits)
  have a: "CHR 0x0A \<notin> set (utoa n)" "CHR ''%'' \<notin> set (utoa n)"
    using d by (auto simp: less_eq_char_def)
  have h: "hd (utoa n) \<noteq> CHR '' ''" "hd (utoa n) \<noteq> CHR 0x09"
    using hd_utoa_digit [OF n] by (auto simp: less_eq_char_def)
  show ?thesis
    unfolding wire_value_def
    using a(1) trimLeft_id [OF utoa_nonempty h] PathUnescape_no_percent [OF a(2)] by simp
qed

lemma parseEvent_loop_content:
  assumes "0 \<le> n"
  shows "parseEvent_loop (''Content-Length: '' @ Itoa n @ [CHR 0x0A, CHR 0x0A] @ b) h =
         (fmupd ''Content-Length'' (Itoa n) h, b, None)"
proof -
  have k: "wire_key ''Content-Length''" by (simp add: wire_key_def)
  have v: "wire_value (Itoa n)" using assms wire_value_utoa by (simp add: Itoa_def)
  have e: "parseEvent_loop (CHR 0x0A # b) h' = (h', b, None)" for h'
    by (subst parseEvent_loop.simps) simp
  have "''Content-Length: '' @ Itoa n @ [CHR 0x0A, CHR 0x0A] @ b =
        ''Content-Length'' @ '': '' @ Itoa n @ [CHR 0x0A] @ (CHR 0x0A # b)" by simp
  then show ?thesis
    using parseEvent_loop_line [OF k v, of "CHR 0x0A # b" h] e by simp
qed

lemma parseEvent_loop_Nil: "parseEvent_loop [] h = (h, [], None)"
  by (subst parseEvent_loop.simps) simp


lemma EqualFold_Content_Length: "EqualFold ''Content-Length'' ''Content-Length''"
  by (simp add: ascii_fold_def)

lemma fold_headers_filter:
  assumes "set ks = {k \<in> fset (fmdom h). P k}"
  shows "fold (\<lambda>k. fmupd k (hget h k)) ks fmempty = fmfilter P h"
proof (rule fmap_ext)
  fix x
  show "fmlookup (fold (\<lambda>k. fmupd k (hget h k)) ks fmempty) x = fmlookup (fmfilter P h) x"
    unfolding fold_fmupd_keys assms
    by (cases "fmlookup h x") (auto simp: hget_def fmlookup_dom_iff dest: fmdom_notI)
qed

text \<open>
  Claim C1, as amended.  Let the keys of an event that \<^verbatim>\<open>WriteTo\<close> writes (those that are
  not \<^verbatim>\<open>Content-Length\<close> in some letter case) and their values be such that the wire
  format keeps them (\<open>wire_key\<close>, \<open>wire_value\<close>).  Then \<^verbatim>\<open>parseEvent\<close> of the bytes that
  \<^verbatim>\<open>WriteTo\<close> writes, for any order \<open>ks\<close> in which the map yields its keys, succeeds; its
  body is the body of the event; its header map is that of the event without the keys
  that are \<^verbatim>\<open>Content-Length\<close> in some letter case, and with \<^verbatim>\<open>Content-Length\<close> set to
  the decimal length of the body when the body is not empty.
\<close>

theorem parseEvent_WriteTo:
  assumes "range_order (e_headers e) ks"
    and "\<forall>k \<in> fset (fmdom (e_headers e)).
           \<not> EqualFold k ''Content-Length'' \<longrightarrow> wire_key k \<and> wire_value (hget (e_headers e) k)"
    and "int (length (e_body e)) < 2 ^ 63"
  shows "parseEvent (Event_WriteTo_range ks e) =
     (\<lparr>e_headers =
          (if e_body e \<noteq> [] then fmupd ''Content-Length'' (Itoa (int (length (e_body e)))) else id)
            (fmfilter (\<lambda>k. \<not> EqualFold k ''Content-Length'') (e_headers e)),
        e_body = e_body e\<rparr>, None)"
proof -
  let ?P = "\<lambda>k. \<not> EqualFold k ''Content-Length''"
  let ?keys = "sort (filter ?P ks)"
  let ?H = "fmfilter ?P (e_headers e)"
  let ?n = "int (length (e_body e))"
  let ?tail = "if e_body e \<noteq> [] then
        ''Content-Length: '' @ Itoa ?n @ [CHR 0x0A, CHR 0x0A] @ e_body e else []"
  have sk: "set ?keys = {k \<in> fset (fmdom (e_headers e)). ?P k}"
    using assms(1) by (auto simp: range_order_def)
  have good: "\<forall>k \<in> set ?keys. wire_key k \<and> wire_value (hget (e_headers e) k)"
    using assms(2) unfolding sk by blast
  have H: "fold (\<lambda>k. fmupd k (hget (e_headers e) k)) ?keys fmempty = ?H"
    using sk by (rule fold_headers_filter)
  have loop: "parseEvent_loop (Event_WriteTo_range ks e) fmempty = parseEvent_loop ?tail ?H"
    unfolding Event_WriteTo_range_def parseEvent_loop_lines [OF good] H ..
  have noCL: "hget ?H ''Content-Length'' = []"
    by (simp add: hget_def EqualFold_Content_Length del: EqualFold.simps)
  show ?thesis
  proof (cases "e_body e = []")
    case True
    then have "parseEvent_loop (Event_WriteTo_range ks e) fmempty = (?H, [], None)"
      unfolding loop by (simp add: parseEvent_loop_Nil)
    then show ?thesis
      using True by (simp add: parseEvent_def noCL Atoi_def ParseInt_Nil)
  next
    case False
    then have n: "0 < ?n" by simp
    have l: "parseEvent_loop (Event_WriteTo_range ks e) fmempty =
        (fmupd ''Content-Length'' (Itoa ?n) ?H, e_body e, None)"
      unfolding loop using False parseEvent_loop_content [of ?n "e_body e" ?H] by simp
    have a: "Atoi (Itoa ?n) = (?n, None)"
      unfolding Atoi_def using assms(3) by (intro ParseInt_Itoa) simp_all
    show ?thesis
      using False n by (simp add: parseEvent_def l hget_def a)
  qed
qed

theorem parseEvent_WriteTo_witness:
  "parseEvent (Event_WriteTo_range [''Event-Name'', ''content-length'', ''Core-UUID'']
      \<lparr>e_headers = fmupd ''Event-Name'' ''HEARTBEAT'' (fmupd ''content-length'' ''7''
         (fmupd ''Core-UUID'' ''a1 b2'' fmempty)), e_body = ''hello''\<rparr>)
   = (\<lparr>e_headers = fmupd ''Content-Length'' ''5'' (fmupd ''Event-Name'' ''HEARTBEAT''
         (fmupd ''Core-UUID'' ''a1 b2'' fmempty)), e_body = ''hello''\<rparr>, None)"
proof -
  let ?h = "fmupd ''Event-Name'' ''HEARTBEAT'' (fmupd ''content-length'' ''7''
         (fmupd ''Core-UUID'' ''a1 b2'' fmempty))"
  let ?e = "\<lparr>e_headers = ?h, e_body = ''hello''\<rparr>"
  have r: "range_order (e_headers ?e) [''Event-Name'', ''content-length'', ''Core-UUID'']"
    by (auto simp: range_order_def)
  have f1: "EqualFold ''content-length'' ''Content-Length''" by (simp add: ascii_fold_def)
  have f2: "\<not> EqualFold ''Event-Name'' ''Content-Length''" "\<not> EqualFold ''Core-UUID'' ''Content-Length''"
    by (simp_all add: ascii_fold_def)
  have w: "wire_key ''Event-Name''" "wire_key ''Core-UUID''" "wire_value ''HEARTBEAT''" "wire_value ''a1 b2''"
    by (simp_all add: wire_key_def wire_value_def)
  have g: "\<forall>k \<in> fset (fmdom (e_headers ?e)).
           \<not> EqualFold k ''Content-Length'' \<longrightarrow> wire_key k \<and> wire_value (hget (e_headers ?e) k)"
    using f1 w by (simp add: hget_def)
  have b: "int (length (e_body ?e)) < 2 ^ 63" by simp
  have i: "Itoa (int (length (e_body ?e))) = ''5''" by code_simp
  have fl: "fmfilter (\<lambda>k. \<not> EqualFold k ''Content-Length'') (e_headers ?e) =
      fmupd ''Event-Name'' ''HEARTBEAT'' (fmupd ''Core-UUID'' ''a1 b2'' fmempty)"
  proof (rule fmap_ext)
    fix x
    show "fmlookup (fmfilter (\<lambda>k. \<not> EqualFold k ''Content-Length'') (e_headers ?e)) x =
      fmlookup (fmupd ''Event-Name'' ''HEARTBEAT'' (fmupd ''Core-UUID'' ''a1 b2'' fmempty)) x"
      using f1 f2 by (auto simp del: EqualFold.simps)
  qed
  show ?thesis
    using parseEvent_WriteTo [OF r g b] unfolding i fl by simp
qed

text \<open>
  The claim as it stands fails: \<^verbatim>\<open>WriteTo\<close> writes the value as it is and \<^verbatim>\<open>parseEvent\<close>
  decodes its percent escapes, so the value \<^verbatim>\<open>100%25\<close> comes back as \<^verbatim>\<open>100%\<close>.
\<close>

theorem parseEvent_WriteTo_counterexample:
  "Event_WriteTo \<lparr>e_headers = fmupd ''Caller-Name'' ''100%25'' fmempty, e_body = []\<rparr>
     = ''Caller-Name: 100%25'' @ [CHR 0x0A] \<and>
   parseEvent (Event_WriteTo \<lparr>e_headers = fmupd ''Caller-Name'' ''100%25'' fmempty, e_body = []\<rparr>)
     = (\<lparr>e_headers = fmupd ''Caller-Name'' ''100%'' fmempty, e_body = []\<rparr>, None) \<and>
   fmupd ''Caller-Name'' ''100%'' fmempty \<noteq> fmupd ''Caller-Name'' ''100%25'' (fmempty :: headers)"
proof -
  have "fmlookup (fmupd ''Caller-Name'' ''100%'' fmempty) ''Caller-Name'' \<noteq>
        fmlookup (fmupd ''Caller-Name'' ''100%25'' (fmempty :: headers)) ''Caller-Name''"
    by simp
  then have "fmupd ''Caller-Name'' ''100%'' fmempty \<noteq> fmupd ''Caller-Name'' ''100%25'' (fmempty :: headers)"
    by metis
  moreover have "Event_WriteTo \<lparr>e_headers = fmupd ''Caller-Name'' ''100%25'' fmempty, e_body = []\<rparr>
     = ''Caller-Name: 100%25'' @ [CHR 0x0A]" by code_simp
  moreover have "parseEvent (''Caller-Name: 100%25'' @ [CHR 0x0A])
     = (\<lparr>e_headers = fmupd ''Caller-Name'' ''100%'' fmempty, e_body = []\<rparr>, None)" by code_simp
  ultimately show ?thesis by simp
qed


end
